theory Spec2Isabelle
  imports Complex_Main "HOL-Library.Word" "HOL-Library.Log_Nat"
begin

section \<open>Configuration constants of script.js\<close>

text \<open>
  JavaScript numbers that hold pixel coordinates, scale factors, delays and random
  draws are modelled by their value, a \<open>real\<close>, and the sums, differences, products
  and quotients that the program forms of them are rounded to double precision
  (\<open>fl\<close>, next section); a product that is exact, as \<open>SPRITE_WIDTH * SCALE\<close>, is
  written without the rounding. Numbers that the program only ever produces as
  integers (second counts, millisecond timestamps of \<open>Date.now()\<close>, frame indices)
  are \<open>int\<close> or \<open>nat\<close> with exact arithmetic, which is the arithmetic of doubles
  on integers below \<open>2 ^ 53\<close>; the time strings, where a claim ranges over all
  integers, round.
\<close>

definition SPRITE_WIDTH :: nat where "SPRITE_WIDTH = 64"
definition SPRITE_HEIGHT :: nat where "SPRITE_HEIGHT = 64"
definition FRAMES_PER_ROW :: nat where "FRAMES_PER_ROW = 5"
definition SCALE :: real where "SCALE = 1.75"
definition CHARACTER_SPAWN_INTERVAL :: real where "CHARACTER_SPAWN_INTERVAL = 25000"

section \<open>Double-precision arithmetic\<close>

text \<open>
  A finite JavaScript number is an IEEE 754 double: a multiple \<open>m * 2 ^ e\<close> of a power
  of two with an integer \<open>m\<close> of at most 53 bits and \<open>e\<close> from -1074 on. It is
  modelled by its value; the two zeros are one value.

  \<open>binade x\<close> is the exponent of the power of two at or below \<open>\<bar>x\<bar>\<close>, for
  \<open>x \<noteq> 0\<close>: it is read off the bit length of the integer part of \<open>\<bar>x\<bar>\<close> when
  \<open>1 \<le> \<bar>x\<bar>\<close>, and of \<open>1 / \<bar>x\<bar>\<close> rounded up otherwise. \<open>ulp x\<close> is the
  distance between neighbouring doubles at \<open>x\<close>: 52 binary places below the binade,
  and \<open>2 ^ -1074\<close> throughout the subnormal range.
\<close>

definition binade :: "real \<Rightarrow> int" where
  "binade x =
     (let a = \<bar>x\<bar>
      in if 1 \<le> a then bitlen \<lfloor>a\<rfloor> - 1 else - bitlen (\<lceil>1 / a\<rceil> - 1))"

definition ulp :: "real \<Rightarrow> real" where
  "ulp x = 2 powi (max (binade x) (- 1022) - 52)"

text \<open>The nearest integer, a tie going to the even one.\<close>

definition roundHalfEven :: "real \<Rightarrow> int" where
  "roundHalfEven x =
     (let n = \<lfloor>x\<rfloor>; d = x - of_int n
      in if d < 1/2 then n else if 1/2 < d then n + 1 else if even n then n else n + 1)"

text \<open>
  \<open>fl x\<close> is the double nearest to \<open>x\<close>, a tie going to the even significand: the
  result of a JavaScript operation whose exact result is \<open>x\<close>. The exponent is not
  bounded above here: where JavaScript has \<open>Infinity\<close>, \<open>fl x\<close> is a real of
  magnitude \<open>2 ^ 1024\<close> or more, which compares with every double as \<open>Infinity\<close>
  does.
\<close>

definition fl :: "real \<Rightarrow> real" where
  "fl x = (if x = 0 then 0 else of_int (roundHalfEven (x / ulp x)) * ulp x)"

text \<open>
  Numbers with the values that are not finite, for the functions that return them.
  \<open>toNumber x\<close> is the result of an operation whose exact result is \<open>x\<close>, overflow
  included; \<open>addN\<close> and \<open>mulN\<close> are \<open>+\<close> and \<open>*\<close>.
\<close>

datatype number = Num real | PosInfinity | NegInfinity | NaN

definition toNumber :: "real \<Rightarrow> number" where
  "toNumber x =
     (let y = fl x
      in if 2 ^ 1024 \<le> y then PosInfinity
         else if y \<le> - (2 ^ 1024) then NegInfinity
         else Num y)"

fun negN :: "number \<Rightarrow> number" where
  "negN (Num a) = Num (- a)"
| "negN PosInfinity = NegInfinity"
| "negN NegInfinity = PosInfinity"
| "negN NaN = NaN"

fun addN :: "number \<Rightarrow> number \<Rightarrow> number" where
  "addN (Num a) (Num b) = toNumber (a + b)"
| "addN NaN b = NaN"
| "addN a NaN = NaN"
| "addN PosInfinity NegInfinity = NaN"
| "addN NegInfinity PosInfinity = NaN"
| "addN PosInfinity b = PosInfinity"
| "addN NegInfinity b = NegInfinity"
| "addN (Num a) b = b"

fun mulN :: "number \<Rightarrow> number \<Rightarrow> number" where
  "mulN (Num a) (Num b) = toNumber (a * b)"
| "mulN NaN b = NaN"
| "mulN a NaN = NaN"
| "mulN (Num a) b = (if a = 0 then NaN else if 0 < a then b else negN b)"
| "mulN a (Num b) = (if b = 0 then NaN else if 0 < b then a else negN a)"
| "mulN PosInfinity b = b"
| "mulN NegInfinity b = negN b"

section \<open>Rectangles and the collision test\<close>

text \<open>A rectangle \<open>{x, y, width, height}\<close> of finite numbers.\<close>

record rect =
  rx :: real
  ry :: real
  rwidth :: real
  rheight :: real

text \<open>
  \<open>checkCollision(rect1, rect2)\<close>, script.js lines 240-245. Each of the four sums is
  rounded before it is compared.
\<close>

definition checkCollision :: "rect \<Rightarrow> rect \<Rightarrow> bool" where
  "checkCollision rect1 rect2 =
     (\<not> (fl (rx rect1 + rwidth rect1) < rx rect2 \<or>
         fl (rx rect2 + rwidth rect2) < rx rect1 \<or>
         fl (ry rect1 + rheight rect1) < ry rect2 \<or>
         fl (ry rect2 + rheight rect2) < ry rect1))"

text \<open>
  The far edges of a rectangle as the collision test computes them, and the point sets
  used to state what the test decides: the closed rectangle (edges included) and its
  interior (edges excluded), each reaching from the near edges \<open>x\<close>, \<open>y\<close> to the
  computed far edges.
\<close>

definition right_edge :: "rect \<Rightarrow> real" where
  "right_edge r = fl (rx r + rwidth r)"

definition bottom_edge :: "rect \<Rightarrow> real" where
  "bottom_edge r = fl (ry r + rheight r)"

definition in_rect :: "rect \<Rightarrow> real \<times> real \<Rightarrow> bool" where
  "in_rect r p = (rx r \<le> fst p \<and> fst p \<le> right_edge r \<and>
                  ry r \<le> snd p \<and> snd p \<le> bottom_edge r)"

definition in_interior :: "rect \<Rightarrow> real \<times> real \<Rightarrow> bool" where
  "in_interior r p = (rx r < fst p \<and> fst p < right_edge r \<and>
                      ry r < snd p \<and> snd p < bottom_edge r)"

definition interiors_intersect :: "rect \<Rightarrow> rect \<Rightarrow> bool" where
  "interiors_intersect r1 r2 = (\<exists>p. in_interior r1 p \<and> in_interior r2 p)"

definition rects_touch_or_overlap :: "rect \<Rightarrow> rect \<Rightarrow> bool" where
  "rects_touch_or_overlap r1 r2 = (\<exists>p. in_rect r1 p \<and> in_rect r2 p)"

section \<open>The placement engine\<close>

text \<open>
  What the placement engine reads from the page: the canvas size and the bounding
  client rectangle of the \<open>startMessage\<close> element (\<open>None\<close> when
  \<open>document.getElementById\<close> finds no such element).
\<close>

record viewport =
  canvas_width :: real
  canvas_height :: real
  startMessage :: "rect option"

text \<open>
  \<open>hasCollision(x, y, width, height)\<close>, lines 248-256. The argument \<open>bounds\<close> is the
  list of \<open>char.getBounds()\<close> of the global \<open>characters\<close> array, in array order.
\<close>

fun hasCollision :: "rect list \<Rightarrow> rect \<Rightarrow> bool" where
  "hasCollision [] testRect = False"
| "hasCollision (b # bs) testRect =
     (if checkCollision testRect b then True else hasCollision bs testRect)"

definition scrollBarRect :: "viewport \<Rightarrow> rect" where
  "scrollBarRect vp = \<lparr>rx = 0, ry = 0, rwidth = canvas_width vp, rheight = 60\<rparr>"

text \<open>\<open>hasUICollision(x, y, width, height)\<close>, lines 259-289.\<close>

definition hasUICollision :: "viewport \<Rightarrow> rect \<Rightarrow> bool" where
  "hasUICollision vp testRect =
     (if checkCollision testRect (scrollBarRect vp) then True
      else (case startMessage vp of
              None \<Rightarrow> False
            | Some messageBoxRect \<Rightarrow>
                if checkCollision testRect messageBoxRect then True else False))"

text \<open>The rectangles that \<open>hasUICollision\<close> declares as exclusion zones.\<close>

definition exclusionRects :: "viewport \<Rightarrow> rect list" where
  "exclusionRects vp =
     scrollBarRect vp # (case startMessage vp of None \<Rightarrow> [] | Some m \<Rightarrow> [m])"

record position =
  px :: real
  py :: real

definition charWidth :: real where "charWidth = real SPRITE_WIDTH * SCALE"
definition charHeight :: real where "charHeight = real SPRITE_HEIGHT * SCALE"

text \<open>
  The candidate of one loop iteration of \<open>findRandomPosition\<close> (lines 304-305):
  \<open>r1\<close> and \<open>r2\<close> are the two results of \<open>Math.random()\<close>. \<open>charWidth\<close> and
  \<open>charHeight\<close> are 112, an exact product.
\<close>

definition candidate :: "viewport \<Rightarrow> real \<times> real \<Rightarrow> position" where
  "candidate vp r =
     (let maxX = fl (canvas_width vp - charWidth);
          maxY = fl (canvas_height vp - charHeight);
          minY = 60
      in \<lparr>px = fl (fst r * maxX), py = fl (minY + fl (snd r * fl (maxY - minY)))\<rparr>)"

definition boxAt :: "position \<Rightarrow> rect" where
  "boxAt p = \<lparr>rx = px p, ry = py p, rwidth = charWidth, rheight = charHeight\<rparr>"

definition MAX_TRIES :: nat where "MAX_TRIES = 1000000"

text \<open>
  The loop \<open>for (let i = 0; i < 1000000; i++)\<close> of \<open>findRandomPosition\<close>, lines
  303-312: \<open>n\<close> iterations remain, \<open>i\<close> is the loop counter, and \<open>rnd i\<close> is the pair
  of \<open>Math.random()\<close> results drawn in iteration \<open>i\<close>. \<open>None\<close> is the \<open>null\<close> of
  line 315 (screen full).
\<close>

fun findLoop :: "viewport \<Rightarrow> rect list \<Rightarrow> (nat \<Rightarrow> real \<times> real) \<Rightarrow> nat \<Rightarrow> nat \<Rightarrow> position option" where
  "findLoop vp bounds rnd 0 i = None"
| "findLoop vp bounds rnd (Suc n) i =
     (let p = candidate vp (rnd i) in
      if \<not> hasCollision bounds (boxAt p) \<and> \<not> hasUICollision vp (boxAt p)
      then Some p
      else findLoop vp bounds rnd n (Suc i))"

definition findRandomPosition :: "viewport \<Rightarrow> rect list \<Rightarrow> (nat \<Rightarrow> real \<times> real) \<Rightarrow> position option" where
  "findRandomPosition vp bounds rnd = findLoop vp bounds rnd MAX_TRIES 0"

section \<open>The frame detector\<close>

text \<open>
  The loaded sprite sheet: its pixel size, and \<open>region sx sy\<close>, the
  \<open>imageData.data\<close> array that \<open>isFrameBlank\<close> reads back (lines 167-181) after
  drawing the \<open>SPRITE_WIDTH\<close> by \<open>SPRITE_HEIGHT\<close> source rectangle at
  \<open>(sx, sy)\<close> onto a fresh canvas: four bytes r, g, b, a per pixel, row by row.
\<close>

record spriteSheet =
  sheet_width :: nat
  sheet_height :: nat
  region :: "nat \<Rightarrow> nat \<Rightarrow> 8 word list"

text \<open>\<open>FRAMES_PER_ROW || Math.floor(spriteSheet.width / SPRITE_WIDTH)\<close>.\<close>

definition framesPerRow :: "spriteSheet \<Rightarrow> nat" where
  "framesPerRow sheet =
     (if FRAMES_PER_ROW \<noteq> 0 then FRAMES_PER_ROW else sheet_width sheet div SPRITE_WIDTH)"

type_synonym pixel = "8 word \<times> 8 word \<times> 8 word \<times> 8 word"

text \<open>
  The pixel loop of \<open>isFrameBlank\<close>, lines 184-205, over the bytes not yet visited;
  the result is the final \<open>(firstPixel, hasContent)\<close>. The \<open>break\<close> of line 201
  is the branch that returns without a recursive call. The array of an
  \<open>ImageData\<close> has a multiple of four bytes, so the last equation is the loop's exit.
\<close>

fun scanPixels :: "8 word list \<Rightarrow> pixel option \<Rightarrow> pixel option \<times> bool" where
  "scanPixels (r # g # b # a # pixels) firstPixel =
     (if a > 0 then
        (case firstPixel of
           None \<Rightarrow> scanPixels pixels (Some (r, g, b, a))
         | Some (fr, fg, fb, fa) \<Rightarrow>
             if r \<noteq> fr \<or> g \<noteq> fg \<or> b \<noteq> fb \<or> a \<noteq> fa
             then (firstPixel, True)
             else scanPixels pixels firstPixel)
      else scanPixels pixels firstPixel)"
| "scanPixels pixels firstPixel = (firstPixel, False)"

text \<open>\<open>isFrameBlank(frameIndex)\<close>, lines 158-209.\<close>

definition isFrameBlank :: "spriteSheet \<Rightarrow> nat \<Rightarrow> bool" where
  "isFrameBlank sheet frameIndex =
     (let row = frameIndex div framesPerRow sheet;
          col = frameIndex mod framesPerRow sheet;
          sourceX = col * SPRITE_WIDTH;
          sourceY = row * SPRITE_HEIGHT;
          pixels = region sheet sourceX sourceY;
          (firstPixel, hasContent) = scanPixels pixels None
      in \<not> hasContent \<and> firstPixel = None)"

text \<open>
  The two globals that \<open>detectValidFrames\<close> fills. \<open>framesByRow\<close> is a JavaScript
  object with integer keys, kept here as an association list in insertion order.
\<close>

record sprites =
  framesByRow :: "(nat \<times> nat list) list"
  validRows :: "nat list"

text \<open>
  Lines 221-225: \<open>if (!framesByRow[row]) framesByRow[row] = []; framesByRow[row].push(i)\<close>.
\<close>

definition pushFrame :: "(nat \<times> nat list) list \<Rightarrow> nat \<Rightarrow> nat \<Rightarrow> (nat \<times> nat list) list" where
  "pushFrame fbr row i =
     (case map_of fbr row of
        None \<Rightarrow> fbr @ [(row, [i])]
      | Some _ \<Rightarrow> map (\<lambda>(k, fs). if k = row then (k, fs @ [i]) else (k, fs)) fbr)"

text \<open>
  \<open>detectValidFrames()\<close>, lines 212-236. \<open>Object.keys\<close> lists integer keys in
  ascending numeric order, hence the \<open>sort\<close>.
\<close>

definition detectValidFrames :: "spriteSheet \<Rightarrow> sprites" where
  "detectValidFrames sheet =
     (let rows = sheet_height sheet div SPRITE_HEIGHT;
          totalFrames = framesPerRow sheet * rows;
          fbr = fold (\<lambda>i acc. if \<not> isFrameBlank sheet i
                               then pushFrame acc (i div framesPerRow sheet) i
                               else acc)
                     [0..<totalFrames] []
      in \<lparr>framesByRow = fbr, validRows = sort (map fst fbr)\<rparr>)"

text \<open>
  The condition the specification gives for a blank cell: every opaque pixel (alpha
  above 0) of the cell has the same (r, g, b, a). \<open>cellPixels\<close> groups the bytes of
  the cell four by four.
\<close>

fun cellPixels :: "8 word list \<Rightarrow> pixel list" where
  "cellPixels (r # g # b # a # rest) = (r, g, b, a) # cellPixels rest"
| "cellPixels rest = []"

definition opaquePixels :: "8 word list \<Rightarrow> pixel list" where
  "opaquePixels bytes = filter (\<lambda>(r, g, b, a). a > 0) (cellPixels bytes)"

definition uniformOrTransparent :: "8 word list \<Rightarrow> bool" where
  "uniformOrTransparent bytes =
     (case opaquePixels bytes of
        [] \<Rightarrow> True
      | p # ps \<Rightarrow> list_all (\<lambda>q. q = p) ps)"

section \<open>The character entity\<close>

datatype error = TypeError

record character =
  oid :: nat
  cx :: real
  cy :: real
  cwidth :: real
  cheight :: real
  validFrames :: "nat list"
  currentFrameIndex :: nat
  currentFrame :: "nat option"
  rowRepeatCount :: nat
  currentRowRepeatTarget :: nat
  lastFrameTime :: int
  frameChangeInterval :: real
  isCenterCharacter :: bool
  initialFrameStartTime :: "int option"
  initialFrameDuration :: int

text \<open>
  \<open>oid\<close> is the identity of the JavaScript object (it is what \<open>indexOf\<close> compares);
  \<open>currentFrame\<close> is \<open>None\<close> where the source stores \<open>undefined\<close>.
  Reading an array out of range gives \<open>undefined\<close> in JavaScript:
\<close>

definition at_index :: "'a list \<Rightarrow> int \<Rightarrow> 'a option" where
  "at_index xs i = (if 0 \<le> i \<and> i < int (length xs) then Some (xs ! nat i) else None)"

text \<open>
  \<open>selectRandomRow()\<close>, lines 65-82; \<open>r\<close> is the result of \<open>Math.random()\<close>, and
  the product \<open>Math.random() * validRows.length\<close> is rounded before \<open>Math.floor\<close>.
  Spreading \<open>framesByRow[randomRow]\<close> when that is \<open>undefined\<close> throws a
  \<open>TypeError\<close>.
\<close>

definition selectRandomRow :: "sprites \<Rightarrow> real \<Rightarrow> character \<Rightarrow> error + character" where
  "selectRandomRow sp r c =
     (if length (validRows sp) = 0 then Inr c
      else
        (case at_index (validRows sp) \<lfloor>fl (r * real (length (validRows sp)))\<rfloor> of
           None \<Rightarrow> Inl TypeError
         | Some randomRow \<Rightarrow>
             (case map_of (framesByRow sp) randomRow of
                None \<Rightarrow> Inl TypeError
              | Some frames \<Rightarrow>
                  Inr (c\<lparr>validFrames := sort frames,
                         currentRowRepeatTarget := length (sort frames),
                         rowRepeatCount := 0,
                         currentFrameIndex := 0,
                         currentFrame := at_index (sort frames) 0\<rparr>))))"

text \<open>
  \<open>new Character(x, y, isCenterCharacter)\<close>, lines 30-56: \<open>now\<close> is \<open>Date.now()\<close>,
  \<open>r1\<close> the \<open>Math.random()\<close> of line 41 and \<open>r2\<close> the one drawn by
  \<open>selectRandomRow\<close>; \<open>ident\<close> is the identity of the new object.
\<close>

definition newCharacter :: "sprites \<Rightarrow> int \<Rightarrow> real \<Rightarrow> real \<Rightarrow> nat \<Rightarrow> real \<Rightarrow> real \<Rightarrow> bool \<Rightarrow> error + character" where
  "newCharacter sp now r1 r2 ident x0 y0 isCenter =
     (let c = \<lparr>oid = ident, cx = x0, cy = y0,
                cwidth = real SPRITE_WIDTH * SCALE,
                cheight = real SPRITE_HEIGHT * SCALE,
                validFrames = [],
                currentFrameIndex = 0,
                currentFrame = Some 0,
                rowRepeatCount = 0,
                currentRowRepeatTarget = 0,
                lastFrameTime = now,
                frameChangeInterval = fl (fl (r1 * (1000 - 500)) + 500),
                isCenterCharacter = isCenter,
                initialFrameStartTime = None,
                initialFrameDuration = 10000\<rparr>
      in if isCenter then
           (let targetRow = 31;
                frameIndexInRow = 2;
                framesPerRow = (if FRAMES_PER_ROW \<noteq> 0 then FRAMES_PER_ROW else 5);
                frame = targetRow * framesPerRow + frameIndexInRow
            in Inr (c\<lparr>currentFrame := Some frame, validFrames := [frame]\<rparr>))
         else selectRandomRow sp r2 c)"

text \<open>\<open>startInitialFrameTimer()\<close>, lines 59-63.\<close>

definition startInitialFrameTimer :: "int \<Rightarrow> character \<Rightarrow> character" where
  "startInitialFrameTimer now c =
     (if isCenterCharacter c \<and> initialFrameStartTime c = None
      then c\<lparr>initialFrameStartTime := Some now\<rparr> else c)"

text \<open>
  \<open>update()\<close>, lines 84-110; \<open>now\<close> is \<open>Date.now()\<close> and \<open>r\<close> the random number
  that \<open>selectRandomRow\<close> draws if it is called.
\<close>

definition update :: "sprites \<Rightarrow> int \<Rightarrow> real \<Rightarrow> character \<Rightarrow> error + character" where
  "update sp now r c =
     (if isCenterCharacter c then Inr c
      else if real_of_int (now - lastFrameTime c) \<ge> frameChangeInterval c then
        (let c1 = c\<lparr>lastFrameTime := now\<rparr> in
         if length (validFrames c1) = 0 then Inr c1
         else
           (let i = (currentFrameIndex c1 + 1) mod length (validFrames c1);
                c2 = c1\<lparr>currentFrameIndex := i, currentFrame := Some (validFrames c1 ! i)\<rparr>
            in if i = 0 then
                 (let c3 = c2\<lparr>rowRepeatCount := rowRepeatCount c2 + 1\<rparr> in
                  if rowRepeatCount c3 \<ge> currentRowRepeatTarget c3
                  then selectRandomRow sp r c3
                  else Inr c3)
               else Inr c2))
      else Inr c)"

text \<open>\<open>getBounds()\<close>, lines 131-138.\<close>

definition getBounds :: "character \<Rightarrow> rect" where
  "getBounds c = \<lparr>rx = cx c, ry = cy c, rwidth = cwidth c, rheight = cheight c\<rparr>"

text \<open>
  A run of \<open>update\<close> calls, one per animation frame, each with its clock value and
  random number; an exception ends the run.
\<close>

fun updates :: "sprites \<Rightarrow> (int \<times> real) list \<Rightarrow> character \<Rightarrow> error + character" where
  "updates sp [] c = Inr c"
| "updates sp ((now, r) # rest) c =
     (case update sp now r c of Inl e \<Rightarrow> Inl e | Inr c' \<Rightarrow> updates sp rest c')"

text \<open>
  The calls of a run are elapsed-interval ticks when each of them finds the frame
  interval elapsed since the previous frame change (\<open>prev\<close>).
\<close>

fun elapsedTicks :: "int \<Rightarrow> real \<Rightarrow> (int \<times> real) list \<Rightarrow> bool" where
  "elapsedTicks prev interval [] = True"
| "elapsedTicks prev interval ((now, r) # rest) =
     (real_of_int (now - prev) \<ge> interval \<and> elapsedTicks now interval rest)"

section \<open>Time strings\<close>

text \<open>
  Strings are lists of 8-bit character codes. \<open>decimal n\<close> is the decimal numeral of a
  non-negative integer.
\<close>

definition digitChar :: "nat \<Rightarrow> char" where
  "digitChar d = char_of (48 + d)"

function decimal :: "int \<Rightarrow> string" where
  "decimal n =
     (if n < 10 then [digitChar (nat n)]
      else decimal (n div 10) @ [digitChar (nat (n mod 10))])"
  by pat_completeness auto

termination decimal
  by (relation "measure nat") auto

declare decimal.simps [simp del]

text \<open>
  \<open>Number.prototype.toString\<close> on a number whose value is an integer \<open>v\<close>. The
  digits printed are those of the shortest decimal numeral that reads back as the
  same double: \<open>shortestDigits v\<close> is the integer with the fewest significant digits
  that rounds to \<open>v\<close>, the one nearest to \<open>v\<close> when two have that many digits and
  the one with the even last digit when both are as near. With \<open>k\<close> significant
  digits only the two multiples of \<open>10 ^ (n - k)\<close> around \<open>v\<close> can round to \<open>v\<close>,
  where \<open>n\<close> is the number of digits of \<open>v\<close>, and 17 significant digits tell any
  two doubles apart. A numeral of up to 21 digits is printed in full, a longer one in
  exponent notation.
\<close>

definition readsBackAs :: "int \<Rightarrow> int \<Rightarrow> bool" where
  "readsBackAs v c = (fl (of_int c) = of_int v)"

definition digitCandidates :: "int \<Rightarrow> nat \<Rightarrow> int list" where
  "digitCandidates v k =
     (let p = 10 ^ (length (decimal v) - k);
          lo = (v div p) * p
      in filter (readsBackAs v) [lo, lo + p])"

definition nearest :: "int \<Rightarrow> nat \<Rightarrow> int list \<Rightarrow> int" where
  "nearest v k cs =
     (case cs of
        [lo, hi] \<Rightarrow>
          if v - lo < hi - v then lo
          else if hi - v < v - lo then hi
          else if even (lo div 10 ^ (length (decimal v) - k)) then lo else hi
      | [c] \<Rightarrow> c
      | _ \<Rightarrow> v)"

definition shortestDigits :: "int \<Rightarrow> int" where
  "shortestDigits v =
     (case find (\<lambda>k. digitCandidates v k \<noteq> []) [1..<18] of
        None \<Rightarrow> v
      | Some k \<Rightarrow> nearest v k (digitCandidates v k))"

definition stripZeros :: "string \<Rightarrow> string" where
  "stripZeros ds = rev (dropWhile (\<lambda>c. c = CHR ''0'') (rev ds))"

definition render :: "int \<Rightarrow> string" where
  "render c =
     (let ds = decimal c; n = length ds
      in if n \<le> 21 then ds
         else (let sig = stripZeros ds
               in (if length sig = 1 then sig else hd sig # CHR ''.'' # tl sig)
                  @ ''e+'' @ decimal (int n - 1)))"

definition numberToString :: "int \<Rightarrow> string" where
  "numberToString v =
     (if v < 0 then CHR ''-'' # render (shortestDigits (- v))
      else render (shortestDigits v))"

text \<open>\<open>String.prototype.padStart(n, c)\<close> with a one-character filler.\<close>

definition padStart :: "nat \<Rightarrow> char \<Rightarrow> string \<Rightarrow> string" where
  "padStart n c s = replicate (n - length s) c @ s"

text \<open>
  \<open>secondsToTime(seconds)\<close>, lines 695-699, on a number whose value is an integer.
  The quotient \<open>seconds / 60\<close> is rounded before \<open>Math.floor\<close>. JavaScript's \<open>%\<close>
  is exact and truncates: the remainder has the sign of the dividend.
\<close>

definition secondsToTime :: "int \<Rightarrow> string" where
  "secondsToTime seconds =
     (let mins = \<lfloor>fl (of_int seconds / 60)\<rfloor>;
          secs = (if seconds < 0 then - ((- seconds) mod 60) else seconds mod 60)
      in numberToString mins @ '':'' @ padStart 2 (CHR ''0'') (numberToString secs))"

text \<open>\<open>String.prototype.split\<close> with a one-character separator.\<close>

fun splitOn :: "char \<Rightarrow> string \<Rightarrow> string list" where
  "splitOn sep [] = [[]]"
| "splitOn sep (c # rest) =
     (if c = sep then [] # splitOn sep rest
      else (case splitOn sep rest of
              part # parts \<Rightarrow> (c # part) # parts
            | [] \<Rightarrow> [[c]]))"

definition isDigit :: "char \<Rightarrow> bool" where
  "isDigit c = (48 \<le> (of_char c :: nat) \<and> (of_char c :: nat) \<le> 57)"

text \<open>
  The white space that \<open>parseInt\<close> skips, among the 8-bit codes: tab, line feed,
  vertical tab, form feed, carriage return, space and no-break space.
\<close>

definition isWhiteSpace :: "char \<Rightarrow> bool" where
  "isWhiteSpace c = ((of_char c :: nat) \<in> {9, 10, 11, 12, 13, 32, 160})"

definition digitsValue :: "string \<Rightarrow> int" where
  "digitsValue ds = foldl (\<lambda>acc c. 10 * acc + int (of_char c - 48)) 0 ds"

text \<open>
  \<open>parseInt(s, 10)\<close>: leading white space is skipped, then an optional sign, then
  the longest run of decimal digits; the result is the double nearest to their value,
  and \<open>NaN\<close> when no digit is found. (The language allows an implementation to read
  the digits after the 20th as zeros; the digits are read exactly here.)
\<close>

definition parseInt :: "string \<Rightarrow> number" where
  "parseInt s =
     (let s1 = dropWhile isWhiteSpace s;
          (sign, s2) = (case s1 of
                          [] \<Rightarrow> (1, s1)
                        | c # rest \<Rightarrow> if c = CHR ''-'' then (- 1, rest)
                                     else if c = CHR ''+'' then (1, rest)
                                     else (1, s1));
          ds = takeWhile isDigit s2
      in if ds = [] then NaN else toNumber (sign * of_int (digitsValue ds)))"

text \<open>
  \<open>timeToSeconds(timeStr)\<close>, lines 687-692. A missing part is \<open>undefined\<close>, which
  \<open>parseInt\<close> turns into \<open>NaN\<close>; the product and the sum are rounded.
\<close>

definition timeToSeconds :: "string \<Rightarrow> number" where
  "timeToSeconds timeStr =
     (let parts = splitOn (CHR '':'') timeStr;
          minutes = (case at_index parts 0 of None \<Rightarrow> NaN | Some p \<Rightarrow> parseInt p);
          seconds = (case at_index parts 1 of None \<Rightarrow> NaN | Some p \<Rightarrow> parseInt p)
      in addN (mulN minutes (Num 60)) seconds)"

section \<open>Songs and the timeline lookup\<close>

record song =
  title :: string
  startTime :: int
  endTime :: int

text \<open>The \<open>for (let song of songs)\<close> loop of \<open>updateScrollText\<close>, lines 717-722.\<close>

fun findSong :: "song list \<Rightarrow> int \<Rightarrow> song option" where
  "findSong [] elapsed = None"
| "findSong (sg # rest) elapsed =
     (if elapsed \<ge> startTime sg \<and> elapsed < endTime sg then Some sg
      else findSong rest elapsed)"

text \<open>
  The song that \<open>updateScrollText\<close> selects, lines 713-731; \<open>None\<close> is the early
  return on an empty song list.
\<close>

definition currentSongAt :: "song list \<Rightarrow> int \<Rightarrow> song option" where
  "currentSongAt sgs elapsed =
     (if length sgs = 0 then None
      else (case findSong sgs elapsed of
              Some sg \<Rightarrow> Some sg
            | None \<Rightarrow>
                if elapsed \<ge> endTime (sgs ! (length sgs - 1))
                then Some (sgs ! (length sgs - 1))
                else Some (sgs ! 0)))"

definition songKey :: "song \<Rightarrow> string" where
  "songKey sg = title sg @ ''-'' @ numberToString (startTime sg)"

text \<open>The interval of a song as the specification words it: start included, end excluded.\<close>

definition songContains :: "song \<Rightarrow> int \<Rightarrow> bool" where
  "songContains sg elapsed = (startTime sg \<le> elapsed \<and> elapsed < endTime sg)"

section \<open>The playback session\<close>

text \<open>
  Pending timers of the page. \<open>setTimeout\<close> and \<open>setInterval\<close> draw their handles
  from one counter; handles are positive, so \<open>if (spawnTimer)\<close> tests for non-null.
  \<open>delay\<close> is the delay in milliseconds that the timer was created with.
\<close>

datatype job = SpawnJob | SongJob | RemoveJob nat

record timer =
  tid :: nat
  delay :: real
  job :: job

record audio =
  currentTime :: int
  paused :: bool

text \<open>
  The global variables of script.js, lines 142-155. The global \<open>startTime\<close> is
  the field \<open>startTime_ms\<close> here (a song has a field \<open>startTime\<close> too), and
  \<open>centerCharacter\<close> holds the identity of the center character object. The last
  four fields are the page around the globals: the text of the marquee, the pending
  timers, the next timer handle and the identity of the next object.
\<close>

record state =
  characters :: "character list"
  spawnTimer :: "nat option"
  gameStarted :: bool
  centerCharacter :: "nat option"
  backgroundAudio :: "audio option"
  songs :: "song list"
  songTimer :: "nat option"
  elapsedTime :: int
  startTime_ms :: "int option"
  hasEverStarted :: bool
  audioDuration :: int
  lastCurrentSong :: "song option"
  scrollText :: string
  timers :: "timer list"
  nextTimer :: nat
  nextOid :: nat

definition setTimer :: "real \<Rightarrow> job \<Rightarrow> state \<Rightarrow> nat \<times> state" where
  "setTimer d j s =
     (nextTimer s,
      s\<lparr>timers := timers s @ [\<lparr>tid = nextTimer s, delay = d, job = j\<rparr>],
        nextTimer := nextTimer s + 1\<rparr>)"

definition clearTimer :: "nat \<Rightarrow> state \<Rightarrow> state" where
  "clearTimer i s = s\<lparr>timers := filter (\<lambda>t. tid t \<noteq> i) (timers s)\<rparr>"

text \<open>
  \<open>updateScrollText()\<close>, lines 712-744, with \<open>updateScrollWithCurrentSong\<close>
  (lines 747-786) reduced to the text it writes into the marquee.
\<close>

definition updateScrollText :: "state \<Rightarrow> state" where
  "updateScrollText s =
     (case currentSongAt (songs s) (elapsedTime s) of
        None \<Rightarrow> s
      | Some currentSong \<Rightarrow>
          if Some (songKey currentSong) \<noteq> map_option songKey (lastCurrentSong s)
          then s\<lparr>scrollText := concat (replicate 100 (title currentSong @ '' '')),
                 lastCurrentSong := Some currentSong\<rparr>
          else s)"

text \<open>
  \<open>scheduleNextSpawn()\<close>, lines 916-927, up to the timer it creates; \<open>r\<close> is the
  result of \<open>Math.random()\<close>. The callback of the timer is \<open>spawnCallback\<close> below.
\<close>

definition scheduleNextSpawn :: "real \<Rightarrow> state \<Rightarrow> state" where
  "scheduleNextSpawn r s =
     (let randomOffset = fl (fl (fl (r * 6) - 3) * 1000);
          nextSpawnTime = fl (CHARACTER_SPAWN_INTERVAL + randomOffset);
          (i, s') = setTimer nextSpawnTime SpawnJob s
      in s'\<lparr>spawnTimer := Some i\<rparr>)"

text \<open>
  \<open>handleMessageBoxClick()\<close>, lines 821-965, without the icon and animation-style
  updates of the page; \<open>now\<close> is \<open>Date.now()\<close>, \<open>r\<close> the random number of
  \<open>scheduleNextSpawn\<close>. Of the audio element only the \<open>paused\<close> flag and the
  seek position are kept; \<open>play()\<close> clears the flag, as an allowed call does.
\<close>

definition handleMessageBoxClick :: "int \<Rightarrow> real \<Rightarrow> state \<Rightarrow> state" where
  "handleMessageBoxClick now r s =
     (if \<not> gameStarted s then
        (let s1 = s\<lparr>gameStarted := True\<rparr>;
             s2 = s1\<lparr>backgroundAudio := map_option (\<lambda>a. a\<lparr>paused := False\<rparr>) (backgroundAudio s1)\<rparr>;
             s3 = s2\<lparr>characters :=
                       map (\<lambda>c. if Some (oid c) = centerCharacter s2
                                 then startInitialFrameTimer now c else c)
                           (characters s2)\<rparr>;
             s4 = (if \<not> hasEverStarted s3
                   then s3\<lparr>elapsedTime := 0, hasEverStarted := True,
                           lastCurrentSong := None, scrollText := []\<rparr>
                   else s3);
             s5 = s4\<lparr>startTime_ms := Some now, elapsedTime := 0\<rparr>;
             (i, s6) = setTimer 100 SongJob s5;
             s7 = s6\<lparr>songTimer := Some i\<rparr>;
             s8 = updateScrollText s7
         in scheduleNextSpawn r s8)
      else
        (let s1 = s\<lparr>gameStarted := False\<rparr>;
             s2 = s1\<lparr>backgroundAudio := map_option (\<lambda>a. a\<lparr>paused := True\<rparr>) (backgroundAudio s1)\<rparr>;
             s3 = (case songTimer s2 of
                     None \<Rightarrow> s2
                   | Some i \<Rightarrow> (clearTimer i s2)\<lparr>songTimer := None\<rparr>)
         in (case spawnTimer s3 of
               None \<Rightarrow> s3
             | Some i \<Rightarrow> (clearTimer i s3)\<lparr>spawnTimer := None\<rparr>)))"

text \<open>
  The callback of the song timer, lines 906-910. \<open>startTime\<close> is \<open>null\<close> before the
  first start, and \<open>null\<close> subtracts as 0.
\<close>

definition songTick :: "int \<Rightarrow> state \<Rightarrow> state" where
  "songTick now s =
     updateScrollText
       (s\<lparr>elapsedTime := (now - (case startTime_ms s of None \<Rightarrow> 0 | Some t \<Rightarrow> t)) div 1000\<rparr>)"

text \<open>\<open>seekToSong(startTimeSeconds)\<close>, lines 789-818.\<close>

definition seekToSong :: "int \<Rightarrow> real \<Rightarrow> int \<Rightarrow> state \<Rightarrow> state" where
  "seekToSong now r startTimeSeconds s =
     (case backgroundAudio s of
        None \<Rightarrow> s
      | Some a \<Rightarrow>
          (let s1 = s\<lparr>backgroundAudio := Some (a\<lparr>currentTime := startTimeSeconds\<rparr>)\<rparr>;
               s2 = (if \<not> gameStarted s1 then handleMessageBoxClick now r s1
                     else s1\<lparr>backgroundAudio :=
                               map_option (\<lambda>a. if paused a then a\<lparr>paused := False\<rparr> else a)
                                          (backgroundAudio s1)\<rparr>);
               s3 = s2\<lparr>elapsedTime := startTimeSeconds\<rparr>;
               s4 = (if gameStarted s3
                     then s3\<lparr>startTime_ms := Some (now - startTimeSeconds * 1000)\<rparr>
                     else s3)
           in updateScrollText s4))"

section \<open>The spawn and lifecycle controller\<close>

text \<open>
  \<open>addCharacter()\<close>, lines 319-333. \<open>rnd\<close> are the random draws of
  \<open>findRandomPosition\<close>, \<open>r1\<close> and \<open>r2\<close> those of the \<open>Character\<close> constructor.
  An exception of the constructor leaves the globals as they were.
\<close>

definition addCharacter ::
  "viewport \<Rightarrow> sprites \<Rightarrow> int \<Rightarrow> (nat \<Rightarrow> real \<times> real) \<Rightarrow> real \<Rightarrow> real \<Rightarrow> state \<Rightarrow> error + state" where
  "addCharacter vp sp now rnd r1 r2 s =
     (case findRandomPosition vp (map getBounds (characters s)) rnd of
        None \<Rightarrow>
          (case spawnTimer s of
             None \<Rightarrow> Inr s
           | Some i \<Rightarrow> Inr ((clearTimer i s)\<lparr>spawnTimer := None\<rparr>))
      | Some pos \<Rightarrow>
          (case newCharacter sp now r1 r2 (nextOid s) (px pos) (py pos) False of
             Inl e \<Rightarrow> Inl e
           | Inr c \<Rightarrow> Inr (s\<lparr>characters := characters s @ [c], nextOid := nextOid s + 1\<rparr>)))"

text \<open>
  The inputs that one firing of the spawn timer consumes: the clock, the random draws
  of the placement loop, of the \<open>Character\<close> constructor and of the next
  \<open>scheduleNextSpawn\<close>.
\<close>

record spawnInputs =
  in_now :: int
  in_positions :: "nat \<Rightarrow> real \<times> real"
  in_interval :: real
  in_row :: real
  in_offset :: real

text \<open>
  The callback that \<open>scheduleNextSpawn\<close> hands to \<open>setTimeout\<close>, lines 921-926:
  \<open>addCharacter(); if (gameStarted) scheduleNextSpawn();\<close>. An uncaught exception
  ends the callback.
\<close>

definition spawnCallback :: "viewport \<Rightarrow> sprites \<Rightarrow> spawnInputs \<Rightarrow> state \<Rightarrow> state" where
  "spawnCallback vp sp inp s =
     (case addCharacter vp sp (in_now inp) (in_positions inp) (in_interval inp) (in_row inp) s of
        Inl e \<Rightarrow> s
      | Inr s1 \<Rightarrow> if gameStarted s1 then scheduleNextSpawn (in_offset inp) s1 else s1)"

text \<open>
  The callback of one removal timer, lines 348-353: \<open>indexOf\<close> finds the first
  array element that is the given object, and \<open>splice\<close> removes it.
\<close>

fun removeFirst :: "nat \<Rightarrow> character list \<Rightarrow> character list" where
  "removeFirst ident [] = []"
| "removeFirst ident (c # cs) = (if oid c = ident then cs else c # removeFirst ident cs)"

definition removeCallback :: "nat \<Rightarrow> state \<Rightarrow> state" where
  "removeCallback ident s = s\<lparr>characters := removeFirst ident (characters s)\<rparr>"

text \<open>The \<open>forEach\<close> of lines 347-354: one timer per character, \<open>index * 500\<close> ms.\<close>

fun scheduleRemovals :: "nat \<Rightarrow> character list \<Rightarrow> state \<Rightarrow> state" where
  "scheduleRemovals index [] s = s"
| "scheduleRemovals index (c # cs) s =
     scheduleRemovals (index + 1) cs (snd (setTimer (real index * 500) (RemoveJob (oid c)) s))"

text \<open>\<open>removeCharactersOneByOne()\<close>, lines 336-355.\<close>

definition removeCharactersOneByOne :: "state \<Rightarrow> state" where
  "removeCharactersOneByOne s =
     (let s1 = (case spawnTimer s of
                  None \<Rightarrow> s
                | Some i \<Rightarrow> (clearTimer i s)\<lparr>spawnTimer := None\<rparr>);
          charactersToRemove = filter (\<lambda>c. \<not> isCenterCharacter c) (characters s1)
      in scheduleRemovals 0 charactersToRemove s1)"

text \<open>The listener of the audio element's \<open>ended\<close> event, lines 1076-1103.\<close>

definition audioEnded :: "state \<Rightarrow> state" where
  "audioEnded s =
     (let s1 = s\<lparr>gameStarted := False\<rparr>;
          s2 = (case songTimer s1 of
                  None \<Rightarrow> s1
                | Some i \<Rightarrow> (clearTimer i s1)\<lparr>songTimer := None\<rparr>);
          s3 = s2\<lparr>scrollText := []\<rparr>
      in removeCharactersOneByOne s3)"

text \<open>
  The timeout of \<open>spriteSheet.onload\<close>, lines 458-497: the character list is reset to
  the center character alone, placed at \<open>(x0, y0)\<close>.
\<close>

definition showCenterCharacter :: "sprites \<Rightarrow> int \<Rightarrow> real \<Rightarrow> real \<Rightarrow> real \<Rightarrow> state \<Rightarrow> state" where
  "showCenterCharacter sp now r1 x0 y0 s =
     (case newCharacter sp now r1 0 (nextOid s) x0 y0 True of
        Inl e \<Rightarrow> s
      | Inr c \<Rightarrow> s\<lparr>characters := [c], centerCharacter := Some (oid c),
                   nextOid := nextOid s + 1\<rparr>)"

section \<open>The event loop\<close>

text \<open>
  The state when the \<open>DOMContentLoaded\<close> handler has run (lines 1001-1155): the
  songs are loaded, the audio element exists, nothing plays.
\<close>

definition initialState :: "song list \<Rightarrow> state" where
  "initialState sgs =
     \<lparr>characters = [], spawnTimer = None, gameStarted = False, centerCharacter = None,
      backgroundAudio = Some \<lparr>currentTime = 0, paused = True\<rparr>,
      songs = sgs, songTimer = None, elapsedTime = 0, startTime_ms = None,
      hasEverStarted = False, audioDuration = 0, lastCurrentSong = None,
      scrollText = [], timers = [], nextTimer = 1, nextOid = 0\<rparr>"

text \<open>
  The events that the page reacts to, each with the clock value and the random numbers
  that its handler reads:
  \<^item> \<open>Click\<close>: the play/pause toggle (message box, space bar, media key);
  \<^item> \<open>SongItemClick now r k\<close>: a click on entry \<open>k\<close> of the song list;
  \<^item> \<open>SongTick\<close>: a firing of the song interval timer;
  \<^item> \<open>SpawnFire i\<close>, \<open>RemoveFire i\<close>: the timeout with handle \<open>i\<close> fires;
  \<^item> \<open>AudioEnded\<close>, \<open>LoadedMetadata duration\<close>: events of the audio element;
  \<^item> \<open>CenterShown\<close>: the sprite sheet has loaded and the center character appears.
\<close>

datatype event =
    Click int real
  | SongItemClick int real nat
  | SongTick int
  | SpawnFire nat spawnInputs
  | RemoveFire nat
  | AudioEnded
  | LoadedMetadata real
  | CenterShown int real real real

definition pendingTimer :: "nat \<Rightarrow> state \<Rightarrow> timer option" where
  "pendingTimer i s = find (\<lambda>t. tid t = i) (timers s)"

text \<open>
  One event. A timer fires only while it is pending; a timeout is no longer pending
  when its callback runs, an interval timer stays.
\<close>

fun step :: "viewport \<Rightarrow> sprites \<Rightarrow> event \<Rightarrow> state \<Rightarrow> state" where
  "step vp sp (Click now r) s = handleMessageBoxClick now r s"
| "step vp sp (SongItemClick now r k) s =
     (case at_index (songs s) (int k) of
        None \<Rightarrow> s
      | Some sg \<Rightarrow> seekToSong now r (startTime sg) s)"
| "step vp sp (SongTick now) s =
     (if SongJob \<in> job ` set (timers s) then songTick now s else s)"
| "step vp sp (SpawnFire i inp) s =
     (case pendingTimer i s of
        None \<Rightarrow> s
      | Some t \<Rightarrow> if job t = SpawnJob then spawnCallback vp sp inp (clearTimer i s) else s)"
| "step vp sp (RemoveFire i) s =
     (case pendingTimer i s of
        None \<Rightarrow> s
      | Some t \<Rightarrow> (case job t of
                     RemoveJob ident \<Rightarrow> removeCallback ident (clearTimer i s)
                   | _ \<Rightarrow> s))"
| "step vp sp AudioEnded s = audioEnded s"
| "step vp sp (LoadedMetadata duration) s = s\<lparr>audioDuration := \<lfloor>duration\<rfloor>\<rparr>"
| "step vp sp (CenterShown now r1 x0 y0) s =
     (if length (validRows sp) = 0 then s else showCenterCharacter sp now r1 x0 y0 s)"

fun run :: "viewport \<Rightarrow> sprites \<Rightarrow> event list \<Rightarrow> state \<Rightarrow> state" where
  "run vp sp [] s = s"
| "run vp sp (e # es) s = run vp sp es (step vp sp e s)"

text \<open>
  The clock value an event carries, and the traces whose clock values never go back
  (\<open>Date.now()\<close> read by successive handlers), starting from clock value \<open>t\<close>.
\<close>

fun eventTime :: "event \<Rightarrow> int option" where
  "eventTime (Click now r) = Some now"
| "eventTime (SongItemClick now r k) = Some now"
| "eventTime (SongTick now) = Some now"
| "eventTime (SpawnFire i inp) = Some (in_now inp)"
| "eventTime (CenterShown now r1 x0 y0) = Some now"
| "eventTime e = None"

fun monotoneClock :: "int \<Rightarrow> event list \<Rightarrow> bool" where
  "monotoneClock t [] = True"
| "monotoneClock t (e # es) =
     (case eventTime e of
        None \<Rightarrow> monotoneClock t es
      | Some t' \<Rightarrow> t \<le> t' \<and> monotoneClock t' es)"

fun clockAfter :: "int \<Rightarrow> event list \<Rightarrow> int" where
  "clockAfter t [] = t"
| "clockAfter t (e # es) =
     clockAfter (case eventTime e of None \<Rightarrow> t | Some t' \<Rightarrow> t') es"

section \<open>Example inputs\<close>

definition exampleViewport :: viewport where
  "exampleViewport = \<lparr>canvas_width = 800, canvas_height = 600, startMessage = None\<rparr>"

definition introSong :: song where
  "introSong = \<lparr>title = ''intro'', startTime = 0, endTime = 10\<rparr>"

definition verseSong :: song where
  "verseSong = \<lparr>title = ''verse'', startTime = 10, endTime = 40\<rparr>"

definition exampleSongs :: "song list" where
  "exampleSongs = [introSong, verseSong]"

text \<open>Two songs with silence before, between and after them.\<close>

definition gapSongs :: "song list" where
  "gapSongs = [\<lparr>title = ''a'', startTime = 10, endTime = 20\<rparr>,
               \<lparr>title = ''b'', startTime = 30, endTime = 40\<rparr>]"

text \<open>
  A sprite sheet of one row of five cells, every pixel the same opaque red.
\<close>

definition redCell :: "8 word list" where
  "redCell = concat (replicate (SPRITE_WIDTH * SPRITE_HEIGHT) [255, 0, 0, 255])"

definition redSheet :: spriteSheet where
  "redSheet = \<lparr>sheet_width = 320, sheet_height = 64, region = (\<lambda>sx sy. redCell)\<rparr>"

text \<open>
  Sprite data with a single valid row, of one frame and of two frames, and the
  characters that the constructor builds on them (see \<open>walker1_constructed\<close> and
  \<open>walker2_constructed\<close> below).
\<close>

definition oneFrameSprites :: sprites where
  "oneFrameSprites = \<lparr>framesByRow = [(0, [3])], validRows = [0]\<rparr>"

definition twoFrameSprites :: sprites where
  "twoFrameSprites = \<lparr>framesByRow = [(0, [0, 1])], validRows = [0]\<rparr>"

text \<open>Sprite data without any valid row, and with two valid rows.\<close>

definition noSprites :: sprites where
  "noSprites = \<lparr>framesByRow = [], validRows = []\<rparr>"

definition twoRowSprites :: sprites where
  "twoRowSprites = \<lparr>framesByRow = [(0, [3]), (2, [11, 10])], validRows = [0, 2]\<rparr>"

definition walker1 :: character where
  "walker1 = \<lparr>oid = 7, cx = 100, cy = 100, cwidth = 112, cheight = 112,
              validFrames = [3], currentFrameIndex = 0, currentFrame = Some 3,
              rowRepeatCount = 0, currentRowRepeatTarget = 1, lastFrameTime = 0,
              frameChangeInterval = 750, isCenterCharacter = False,
              initialFrameStartTime = None, initialFrameDuration = 10000\<rparr>"

definition walker2 :: character where
  "walker2 = \<lparr>oid = 7, cx = 100, cy = 100, cwidth = 112, cheight = 112,
              validFrames = [0, 1], currentFrameIndex = 0, currentFrame = Some 0,
              rowRepeatCount = 0, currentRowRepeatTarget = 2, lastFrameTime = 0,
              frameChangeInterval = 750, isCenterCharacter = False,
              initialFrameStartTime = None, initialFrameDuration = 10000\<rparr>"

section \<open>Auxiliary notions\<close>

text \<open>
  The outcome of the tick that takes the frame cursor back to 0 (lines 97-107 of
  \<open>update\<close>): the repeat counter goes up by one, and when it reaches the repeat
  target a new row is selected.
\<close>

definition wrapped :: "sprites \<Rightarrow> int \<Rightarrow> real \<Rightarrow> character \<Rightarrow> error + character" where
  "wrapped sp now r c =
     (let c3 = c\<lparr>lastFrameTime := now, currentFrameIndex := 0,
                 currentFrame := Some (validFrames c ! 0),
                 rowRepeatCount := rowRepeatCount c + 1\<rparr>
      in if currentRowRepeatTarget c \<le> rowRepeatCount c + 1
         then selectRandomRow sp r c3 else Inr c3)"

text \<open>
  The two outcomes of that tick, written out. \<open>cycled now c\<close> is the character
  \<open>c\<close> after a full cycle of its row that ended at clock value \<open>now\<close>: the same
  row, the cursor back on its first frame, the repeat counter one higher.
  \<open>inRow frames c\<close> is \<open>c\<close> switched to the row whose valid frames are
  \<open>frames\<close>: the row's frames in ascending order, the repeat target equal to their
  number, cursor and repeat counter 0.
\<close>

definition cycled :: "int \<Rightarrow> character \<Rightarrow> character" where
  "cycled now c =
     c\<lparr>lastFrameTime := now, currentFrameIndex := 0,
       currentFrame := Some (validFrames c ! 0),
       rowRepeatCount := rowRepeatCount c + 1\<rparr>"

definition inRow :: "nat list \<Rightarrow> character \<Rightarrow> character" where
  "inRow frames c =
     c\<lparr>validFrames := sort frames,
       currentRowRepeatTarget := length frames,
       rowRepeatCount := 0,
       currentFrameIndex := 0,
       currentFrame := at_index (sort frames) 0\<rparr>"

text \<open>
  The removal timers that \<open>scheduleRemovals\<close> appends to the pending timers: handles
  from \<open>first\<close> on, delays \<open>index * 500\<close>, \<open>(index + 1) * 500\<close>, and so on.
\<close>

fun removalTimers :: "nat \<Rightarrow> nat \<Rightarrow> character list \<Rightarrow> timer list" where
  "removalTimers first index [] = []"
| "removalTimers first index (c # cs) =
     \<lparr>tid = first, delay = real index * 500, job = RemoveJob (oid c)\<rparr>
       # removalTimers (Suc first) (Suc index) cs"

text \<open>
  The characters that \<open>removeCharactersOneByOne\<close> collects (line 344) when the
  session ends in state \<open>s\<close>, the timers it creates for them, and the state after
  the audio has ended and the first \<open>k\<close> of these timers have fired.
\<close>

definition charactersToRemove :: "state \<Rightarrow> character list" where
  "charactersToRemove s = filter (\<lambda>c. \<not> isCenterCharacter c) (characters s)"



text \<open>An explicit seek is a click on an entry of the song list.\<close>

definition isSeek :: "event \<Rightarrow> bool" where
  "isSeek e = (case e of SongItemClick now r k \<Rightarrow> True | _ \<Rightarrow> False)"

text \<open>
  The invariant of the timeline, relative to the latest clock value \<open>t\<close>: the elapsed
  time is not negative, no song starts before 0, a pending song timer is the one held in
  \<open>songTimer\<close> and exists only while playing, and while playing the elapsed time
  does not run ahead of the clock.
\<close>

definition timelineInv :: "int \<Rightarrow> state \<Rightarrow> bool" where
  "timelineInv t s =
     (0 \<le> elapsedTime s \<and>
      list_all (\<lambda>sg. 0 \<le> startTime sg) (songs s) \<and>
      list_all (\<lambda>tm. job tm = SongJob \<longrightarrow> gameStarted s \<and> songTimer s = Some (tid tm)) (timers s) \<and>
      (gameStarted s \<longrightarrow>
         (case startTime_ms s of None \<Rightarrow> False | Some st \<Rightarrow> elapsedTime s * 1000 \<le> t - st)))"

text \<open>
  A state is well formed when its characters are distinct objects created before the
  next free identity, and its pending timers have handles below the next free handle.
\<close>

definition wellFormed :: "state \<Rightarrow> bool" where
  "wellFormed s =
     (distinct (map oid (characters s)) \<and>
      list_all (\<lambda>c. oid c < nextOid s) (characters s) \<and>
      list_all (\<lambda>t. tid t < nextTimer s) (timers s))"

section \<open>Example sessions\<close>

text \<open>
  A session that has just been started at clock value 0; the same session after a song
  tick at 25 s and a pause; and a trace on which the audio lasts 40.9 s, play is pressed
  at clock value 0 and the song timer fires at clock value 41000, before any
  \<open>ended\<close> event (playback began a little after the click, or stalled).
\<close>

definition playingState :: state where
  "playingState = run exampleViewport twoFrameSprites [Click 0 (1/2)] (initialState exampleSongs)"

definition pausedState :: state where
  "pausedState = run exampleViewport twoFrameSprites [SongTick 25000, Click 25500 (1/2)] playingState"

definition overrunTrace :: "event list" where
  "overrunTrace = [LoadedMetadata (409/10), Click 0 (1/2), SongTick 41000]"

text \<open>
  A crowded page: a 300 by 300 canvas whose center character stands at (94, 124), so
  that no position is left for another character; the session is playing. The inputs
  of a spawn-timer firing on it draw \<open>Math.random() = 0.5\<close> throughout.
\<close>

definition crowdedViewport :: viewport where
  "crowdedViewport = \<lparr>canvas_width = 300, canvas_height = 300, startMessage = None\<rparr>"

definition crowdedState :: state where
  "crowdedState =
     run crowdedViewport twoFrameSprites [CenterShown 0 (1/2) 94 124, Click 1000 (1/2)]
       (initialState exampleSongs)"

definition crowdedInputs :: spawnInputs where
  "crowdedInputs = \<lparr>in_now = 26000, in_positions = (\<lambda>i. (1/2, 1/2)), in_interval = 1/2,
                     in_row = 0, in_offset = 1/2\<rparr>"




section \<open>Properties of double rounding\<close>

lemma powi_nonpos: "n \<le> 0 \<Longrightarrow> (2::real) powi n = 1 / 2 ^ nat (- n)"
  by (cases "n = 0") (simp_all add: power_int_def power_one_over field_simps)

lemma binade_bounds:
  assumes "x \<noteq> 0"
  shows "2 powi (binade x) \<le> \<bar>x\<bar>" "\<bar>x\<bar> < 2 powi (binade x + 1)"
proof -
  define a where "a = \<bar>x\<bar>"
  have a0: "0 < a" using assms by (simp add: a_def)
  have "2 powi (binade x) \<le> a \<and> a < 2 powi (binade x + 1)"
  proof (cases "1 \<le> a")
    case True
    define m where "m = \<lfloor>a\<rfloor>"
    have m0: "0 < m" using True by (simp add: m_def)
    have b: "binade x = bitlen m - 1" using True by (simp add: binade_def a_def m_def Let_def)
    have bl: "1 \<le> bitlen m" using m0 bitlen_eq_zero_iff [of m] bitlen_nonneg [of m] by linarith
    from bitlen_bounds [OF m0]
    have lo: "2 ^ nat (bitlen m - 1) \<le> m" and hi: "m < 2 ^ nat (bitlen m)" by simp_all
    have "(2::real) powi (bitlen m - 1) = 2 ^ nat (bitlen m - 1)"
      using bl by (simp add: power_int_def)
    also have "\<dots> = of_int (2 ^ nat (bitlen m - 1))" by simp
    also have "\<dots> \<le> of_int m" using lo by (simp only: of_int_le_iff)
    also have "\<dots> \<le> a" by (simp add: m_def)
    finally have 1: "2 powi (binade x) \<le> a" by (simp add: b)
    have "m + 1 \<le> 2 ^ nat (bitlen m)" using hi by simp
    then have "real_of_int (m + 1) \<le> of_int (2 ^ nat (bitlen m))" by (simp only: of_int_le_iff)
    moreover have "a < real_of_int (m + 1)" by (simp add: m_def)
    ultimately have "a < 2 ^ nat (bitlen m)" by simp
    also have "(2::real) ^ nat (bitlen m) = 2 powi (bitlen m)"
      using bl by (simp add: power_int_def)
    finally have "a < 2 powi (binade x + 1)" by (simp add: b)
    with 1 show ?thesis by simp
  next
    case False
    define y where "y = 1 / a"
    define m where "m = \<lceil>y\<rceil> - 1"
    have y1: "1 < y" using False a0 by (simp add: y_def)
    have m0: "0 < m" using y1 by (simp add: m_def less_ceiling_iff)
    have b: "binade x = - bitlen m" using False by (simp add: binade_def a_def m_def y_def Let_def)
    have bl: "1 \<le> bitlen m" using m0 bitlen_eq_zero_iff [of m] bitlen_nonneg [of m] by linarith
    from bitlen_bounds [OF m0]
    have lo: "2 ^ nat (bitlen m - 1) \<le> m" and hi: "m < 2 ^ nat (bitlen m)" by simp_all
    have "m + 1 \<le> 2 ^ nat (bitlen m)" using hi by simp
    then have "real_of_int (m + 1) \<le> of_int (2 ^ nat (bitlen m))" by (simp only: of_int_le_iff)
    moreover have "y \<le> real_of_int (m + 1)" by (simp add: m_def)
    ultimately have yu: "y \<le> 2 ^ nat (bitlen m)" by simp
    have "real_of_int (2 ^ nat (bitlen m - 1)) \<le> of_int m" using lo by (simp only: of_int_le_iff)
    then have "(2::real) ^ nat (bitlen m - 1) \<le> of_int m" by simp
    moreover have "of_int m < y" by (simp add: m_def) linarith
    ultimately have yl: "2 ^ nat (bitlen m - 1) < y" by linarith
    have p1: "(2::real) powi (- bitlen m) = 1 / 2 ^ nat (bitlen m)"
      using bl by (simp add: powi_nonpos)
    have p2: "(2::real) powi (1 - bitlen m) = 1 / 2 ^ nat (bitlen m - 1)"
      using bl powi_nonpos [of "1 - bitlen m"] by simp
    have ay: "a = 1 / y" using a0 by (simp add: y_def)
    have y0: "0 < y" using y1 by simp
    have 1: "1 / 2 ^ nat (bitlen m) \<le> a"
      unfolding ay using yu y0 by (simp add: field_simps)
    have 2: "a < 1 / 2 ^ nat (bitlen m - 1)"
      unfolding ay using yl y0 by (simp add: field_simps)
    show ?thesis using 1 2 by (simp add: b p1 p2)
  qed
  then show "2 powi (binade x) \<le> \<bar>x\<bar>" "\<bar>x\<bar> < 2 powi (binade x + 1)"
    by (simp_all add: a_def)
qed

lemma binade_less:
  assumes "x \<noteq> 0" "\<bar>x\<bar> < 2 powi e"
  shows "binade x < e"
proof (rule ccontr)
  assume "\<not> binade x < e"
  then have "(2::real) powi e \<le> 2 powi (binade x)" by (intro power_int_increasing) simp_all
  with binade_bounds(1) [OF assms(1)] assms(2) show False by simp
qed

lemma binade_ge:
  assumes "x \<noteq> 0" "2 powi e \<le> \<bar>x\<bar>"
  shows "e \<le> binade x"
proof (rule ccontr)
  assume "\<not> e \<le> binade x"
  then have "(2::real) powi (binade x + 1) \<le> 2 powi e" by (intro power_int_increasing) simp_all
  with binade_bounds(2) [OF assms(1)] assms(2) show False by simp
qed

lemma binade_eq:
  assumes "2 powi e \<le> \<bar>x\<bar>" "\<bar>x\<bar> < 2 powi (e + 1)"
  shows "binade x = e"
proof -
  have "(0::real) < 2 powi e" by simp
  with assms(1) have "0 < \<bar>x\<bar>" by linarith
  then have x: "x \<noteq> 0" by simp
  from binade_less [OF x assms(2)] binade_ge [OF x assms(1)] show ?thesis by simp
qed

lemma roundHalfEven_of_int: "roundHalfEven (of_int m) = m"
  by (simp add: roundHalfEven_def)

lemma roundHalfEven_error: "\<bar>of_int (roundHalfEven y) - y\<bar> \<le> 1/2"
  unfolding roundHalfEven_def Let_def by (auto simp: abs_if) linarith+

lemma roundHalfEven_ge: "of_int m \<le> y \<Longrightarrow> m \<le> roundHalfEven y"
  using roundHalfEven_error [of y] by (simp add: abs_if split: if_splits)

lemma roundHalfEven_less: "y < of_int m - 1/2 \<Longrightarrow> roundHalfEven y < m"
  using roundHalfEven_error [of y] by (simp add: abs_if split: if_splits)

lemma fl_zero [simp]: "fl 0 = 0"
  by (simp add: fl_def)

lemma ulp_pos: "0 < ulp x"
  by (simp add: ulp_def)

lemma fl_exact:
  assumes "x / ulp x = of_int m"
  shows "fl x = x"
proof -
  have "of_int m * ulp x = x" using ulp_pos [of x] assms by (simp add: field_simps)
  then show ?thesis by (simp add: fl_def assms roundHalfEven_of_int)
qed

lemma fl_of_int:
  assumes "\<bar>k\<bar> < 2 ^ 53"
  shows "fl (of_int k) = of_int k"
proof (cases "k = 0")
  case True
  then show ?thesis by (simp add: fl_zero)
next
  case False
  define x :: real where "x = of_int k"
  have x0: "x \<noteq> 0" using False by (simp add: x_def)
  have "\<bar>x\<bar> = of_int \<bar>k\<bar>" by (simp add: x_def)
  also have "\<dots> < of_int (2 ^ 53)" using assms by (simp only: of_int_less_iff)
  finally have "\<bar>x\<bar> < 2 powi 53" by simp
  from binade_less [OF x0 this] have b1: "binade x \<le> 52" by simp
  have "1 \<le> \<bar>k\<bar>" using False by simp
  then have "(1::real) \<le> of_int \<bar>k\<bar>" by (simp only: of_int_1_le_iff)
  then have "2 powi 0 \<le> \<bar>x\<bar>" by (simp add: x_def)
  from binade_ge [OF x0 this] have b0: "0 \<le> binade x" .
  define j where "j = nat (52 - binade x)"
  have u: "ulp x = 1 / 2 ^ j"
    using b0 b1 powi_nonpos [of "binade x - 52"] by (simp add: ulp_def j_def max_def)
  have "x / ulp x = of_int (k * 2 ^ j)" using u by (simp add: x_def)
  from fl_exact [OF this] show ?thesis by (simp add: x_def)
qed

lemma fl_ge_2_53:
  assumes "2 ^ 53 \<le> x"
  shows "2 ^ 53 \<le> fl x"
proof -
  have x0: "x \<noteq> 0" using assms by auto
  have xa: "\<bar>x\<bar> = x" using assms by (simp add: abs_if) 
  have "2 powi 53 \<le> \<bar>x\<bar>" using assms xa by simp
  from binade_ge [OF x0 this] have b: "53 \<le> binade x" .
  define e where "e = binade x"
  have u: "ulp x = 2 powi (e - 52)" using b by (simp add: ulp_def e_def max_def)
  have u0: "0 < ulp x" by (simp add: u)
  have "2 powi e \<le> x" using binade_bounds(1) [OF x0] xa by (simp add: e_def)
  moreover have "(2::real) powi (52 + (e - 52)) = 2 powi 52 * 2 powi (e - 52)"
    by (rule power_int_add) simp
  then have e52: "(2::real) powi e = of_int (2 ^ 52) * 2 powi (e - 52)" by simp
  ultimately have "of_int (2 ^ 52) * ulp x \<le> x" by (simp add: u)
  then have "of_int (2 ^ 52) \<le> x / ulp x" using u0 by (simp add: field_simps)
  from roundHalfEven_ge [OF this] have "2 ^ 52 \<le> roundHalfEven (x / ulp x)" .
  then have "real_of_int (2 ^ 52) \<le> of_int (roundHalfEven (x / ulp x))"
    by (simp only: of_int_le_iff)
  then have "of_int (2 ^ 52) * ulp x \<le> fl x"
    using u0 x0 by (simp add: fl_def)
  moreover have "(2::real) powi 53 \<le> 2 powi e" using b by (intro power_int_increasing) (simp_all add: e_def)
  moreover have "(2::real) powi e = of_int (2 ^ 52) * ulp x"
    using e52 by (simp add: u)
  ultimately show ?thesis by simp
qed

lemma floor_fl_div_60:
  assumes "0 \<le> n" "n < 2 ^ 53"
  shows "\<lfloor>fl (of_int n / 60)\<rfloor> = n div 60"
proof (cases "n = 0")
  case True
  then show ?thesis by (simp add: fl_zero)
next
  case False
  define x :: real where "x = of_int n / 60"
  define q where "q = n div 60"
  define r where "r = n mod 60"
  have n: "n = 60 * q + r" by (simp add: q_def r_def)
  have r: "0 \<le> r" "r \<le> 59" by (simp_all add: r_def) 
  have n1: "1 \<le> n" using False assms by simp
  have x0: "x \<noteq> 0" using False by (simp add: x_def)
  have xp: "0 < x" using n1 by (simp add: x_def)
  have "real_of_int n < of_int (2 ^ 53)" using assms by (simp only: of_int_less_iff)
  then have "x < 2 ^ 48" by (simp add: x_def)
  then have "\<bar>x\<bar> < 2 powi 48" using xp by simp
  from binade_less [OF x0 this] have b1: "binade x \<le> 47" by simp
  have "(1::real) \<le> of_int n" using n1 by (simp only: of_int_1_le_iff)
  then have "2 powi (- 6) \<le> \<bar>x\<bar>" using xp by (simp add: x_def powi_nonpos)
  from binade_ge [OF x0 this] have b0: "- 6 \<le> binade x" .
  define j where "j = nat (52 - binade x)"
  have j5: "5 \<le> j" using b1 by (simp add: j_def)
  have u: "ulp x = 1 / 2 ^ j"
    using b0 b1 powi_nonpos [of "binade x - 52"] by (simp add: ulp_def j_def max_def)
  define K where "K = roundHalfEven (x * 2 ^ j)"
  have f: "fl x = of_int K / 2 ^ j" using x0 by (simp add: fl_def u K_def)
  have p32: "(32::real) \<le> 2 ^ j"
    using power_increasing [OF j5, of "2::real"] by simp
  have xs: "x * 2 ^ j = of_int (q * 2 ^ j) + of_int r * 2 ^ j / 60"
    by (simp add: x_def n field_simps)
  have "of_int (q * 2 ^ j) \<le> x * 2 ^ j"
    unfolding xs using r by simp
  from roundHalfEven_ge [OF this] have "q * 2 ^ j \<le> K" by (simp add: K_def)
  then have "real_of_int (q * 2 ^ j) \<le> of_int K" by (simp only: of_int_le_iff)
  then have lo: "of_int q \<le> fl x" by (simp add: f field_simps)
  have "real_of_int r \<le> of_int 59" using r by (simp only: of_int_le_iff)
  then have "real_of_int r \<le> 59" by simp
  then have "of_int r * 2 ^ j / 60 \<le> 59 * 2 ^ j / (60::real)"
    by (simp add: divide_right_mono mult_right_mono)
  also have "\<dots> = 2 ^ j - 2 ^ j / 60" by simp
  also have "\<dots> < 2 ^ j - 1 / 2" using p32 by simp
  finally have "x * 2 ^ j < of_int ((q + 1) * 2 ^ j) - 1 / 2"
    unfolding xs by (simp add: algebra_simps)
  from roundHalfEven_less [OF this] have "K < (q + 1) * 2 ^ j" by (simp add: K_def)
  then have "real_of_int K < of_int ((q + 1) * 2 ^ j)" by (simp only: of_int_less_iff)
  then have hi: "fl x < of_int q + 1" by (simp add: f field_simps)
  from lo hi have "\<lfloor>fl x\<rfloor> = q" by (simp add: floor_eq_iff)
  then show ?thesis by (simp add: x_def q_def)
qed




lemma toNumber_finite:
  assumes "fl x = y" "\<bar>y\<bar> < 2 ^ 1024"
  shows "toNumber x = Num y"
  using assms by (simp add: toNumber_def Let_def abs_if split: if_splits)

lemma toNumber_of_int:
  assumes "\<bar>k\<bar> < 2 ^ 53"
  shows "toNumber (of_int k) = Num (of_int k)"
proof -
  have "real_of_int \<bar>k\<bar> < of_int (2 ^ 53)" using assms by (simp only: of_int_less_iff)
  then have "\<bar>real_of_int k\<bar> < 2 ^ 1024" by simp
  with fl_of_int [OF assms] show ?thesis by (rule toNumber_finite)
qed

lemma fl_numeral [simp]:
  assumes "(numeral k :: int) < 2 ^ 53"
  shows "fl (numeral k) = numeral k"
proof -
  have "\<bar>numeral k :: int\<bar> < 2 ^ 53" using assms by simp
  from fl_of_int [OF this] show ?thesis by simp
qed

lemma fl_one [simp]: "fl 1 = 1"
  using fl_of_int [of 1] by simp

lemma roundHalfEven_le: "y \<le> of_int m \<Longrightarrow> roundHalfEven y \<le> m"
  using roundHalfEven_error [of y] by (simp add: abs_if split: if_splits)

lemma roundHalfEven_mono:
  assumes "a \<le> b"
  shows "roundHalfEven a \<le> roundHalfEven b"
proof (cases "\<lfloor>a\<rfloor> = \<lfloor>b\<rfloor>")
  case True
  have "a - of_int \<lfloor>a\<rfloor> \<le> b - of_int \<lfloor>a\<rfloor>" using assms by simp
  then show ?thesis unfolding roundHalfEven_def Let_def True [symmetric]
    by (auto split: if_splits)
next
  case False
  then have "\<lfloor>a\<rfloor> < \<lfloor>b\<rfloor>" using floor_mono [OF assms] by simp
  then have "\<lfloor>a\<rfloor> + 1 \<le> \<lfloor>b\<rfloor>" by simp
  moreover have "roundHalfEven a \<le> \<lfloor>a\<rfloor> + 1"
    using real_of_int_floor_add_one_ge [of a] by (intro roundHalfEven_le) simp
  moreover have "\<lfloor>b\<rfloor> \<le> roundHalfEven b"
    by (rule roundHalfEven_ge) simp
  ultimately show ?thesis by linarith
qed

lemma roundHalfEven_minus: "roundHalfEven (- y) = - roundHalfEven y"
proof (cases "y = of_int \<lfloor>y\<rfloor>")
  case True
  then obtain m where "y = of_int m" ..
  then have "- y = of_int (- m)" by simp
  then show ?thesis using \<open>y = of_int m\<close> by (simp only: roundHalfEven_of_int)
next
  case False
  then have c: "\<lceil>y\<rceil> = \<lfloor>y\<rfloor> + 1" by (simp add: ceiling_altdef)
  have f: "\<lfloor>- y\<rfloor> = - \<lfloor>y\<rfloor> - 1" using c by (simp add: ceiling_def)
  show ?thesis unfolding roundHalfEven_def Let_def f
    by (auto split: if_splits)
qed

lemma binade_minus: "binade (- x) = binade x"
  by (simp add: binade_def)

lemma fl_minus: "fl (- x) = - fl x"
  by (simp add: fl_def ulp_def binade_minus roundHalfEven_minus)

lemma fl_nonneg: "0 \<le> x \<Longrightarrow> 0 \<le> fl x"
proof -
  assume "0 \<le> x"
  then have "of_int 0 \<le> x / ulp x" using ulp_pos [of x] by simp
  from roundHalfEven_ge [OF this] show ?thesis using ulp_pos [of x] by (simp add: fl_def)
qed

lemma binade_mono:
  assumes "0 < x" "x \<le> y"
  shows "binade x \<le> binade y"
proof -
  have x0: "x \<noteq> 0" and y0: "y \<noteq> 0" using assms by auto
  have "2 powi (binade x) \<le> \<bar>x\<bar>" by (rule binade_bounds(1) [OF x0])
  also have "\<bar>x\<bar> \<le> \<bar>y\<bar>" using assms by simp
  also have "\<bar>y\<bar> < 2 powi (binade y + 1)" by (rule binade_bounds(2) [OF y0])
  finally have "(2::real) powi (binade x) < 2 powi (binade y + 1)" .
  then have "binade x < binade y + 1"
    by (meson not_less one_le_numeral power_int_increasing)
  then show ?thesis by simp
qed

lemma fl_pos_mono:
  assumes "0 < x" "x \<le> y"
  shows "fl x \<le> fl y"
proof -
  have x0: "x \<noteq> 0" and y0: "y \<noteq> 0" and yp: "0 < y" using assms by auto
  define ex where "ex = max (binade x) (- 1022)"
  define ey where "ey = max (binade y) (- 1022)"
  have ux: "ulp x = 2 powi (ex - 52)" by (simp add: ulp_def ex_def)
  have uy: "ulp y = 2 powi (ey - 52)" by (simp add: ulp_def ey_def)
  have le: "ex \<le> ey" using binade_mono [OF assms] by (simp add: ex_def ey_def)
  show ?thesis
  proof (cases "ex = ey")
    case True
    then have u: "ulp y = ulp x" by (simp add: ux uy)
    have "x / ulp x \<le> y / ulp x" using assms ulp_pos [of x] by (simp add: divide_right_mono)
    from roundHalfEven_mono [OF this]
    have "real_of_int (roundHalfEven (x / ulp x)) \<le> of_int (roundHalfEven (y / ulp x))"
      by (simp only: of_int_le_iff)
    then show ?thesis using x0 y0 ulp_pos [of x] by (simp add: fl_def u)
  next
    case False
    then have lt: "ex + 1 \<le> ey" using le by simp
    then have bey: "binade y = ey" by (auto simp: ey_def ex_def max_def split: if_splits)
    have "(2::real) powi (53 + (ex - 52)) = 2 powi 53 * 2 powi (ex - 52)"
      by (rule power_int_add) simp
    also have "53 + (ex - 52) = ex + 1" by simp
    finally have a2: "(2::real) powi (ex + 1) = 2 powi 53 * 2 powi (ex - 52)" .
    have "\<bar>x\<bar> < 2 powi (binade x + 1)" by (rule binade_bounds(2) [OF x0])
    also have "\<dots> \<le> 2 powi (ex + 1)" by (intro power_int_increasing) (simp_all add: ex_def)
    finally have "x < of_int (2 ^ 53) * ulp x" using assms(1) a2 by (simp add: ux)
    then have "x / ulp x \<le> of_int (2 ^ 53)" using ulp_pos [of x] by (simp add: field_simps)
    from roundHalfEven_le [OF this]
    have "real_of_int (roundHalfEven (x / ulp x)) \<le> of_int (2 ^ 53)" by (simp only: of_int_le_iff)
    then have "fl x \<le> of_int (2 ^ 53) * ulp x"
      using x0 ulp_pos [of x] by (simp add: fl_def)
    also have "\<dots> = 2 powi (ex + 1)" using a2 by (simp add: ux)
    also have "\<dots> \<le> 2 powi ey" using lt by (intro power_int_increasing) simp_all
    finally have 1: "fl x \<le> 2 powi ey" .
    have b2: "(2::real) powi (52 + (ey - 52)) = 2 powi 52 * 2 powi (ey - 52)"
      by (rule power_int_add) simp
    have "2 powi ey \<le> \<bar>y\<bar>" using binade_bounds(1) [OF y0] by (simp add: bey)
    then have "of_int (2 ^ 52) * ulp y \<le> y" using yp b2 by (simp add: uy)
    then have "of_int (2 ^ 52) \<le> y / ulp y" using ulp_pos [of y] by (simp add: field_simps)
    from roundHalfEven_ge [OF this]
    have "real_of_int (2 ^ 52) \<le> of_int (roundHalfEven (y / ulp y))" by (simp only: of_int_le_iff)
    then have "of_int (2 ^ 52) * ulp y \<le> fl y"
      using y0 ulp_pos [of y] by (simp add: fl_def)
    moreover have "of_int (2 ^ 52) * ulp y = 2 powi ey" using b2 by (simp add: uy)
    ultimately have 2: "2 powi ey \<le> fl y" by simp
    from 1 2 show ?thesis by simp
  qed
qed

lemma fl_mono:
  assumes "x \<le> y"
  shows "fl x \<le> fl y"
proof -
  consider "0 < x" | "x \<le> 0" "0 \<le> y" | "y < 0" using assms by linarith
  then show ?thesis
  proof cases
    case 1
    then show ?thesis using assms by (rule fl_pos_mono)
  next
    case 2
    have "0 \<le> fl (- x)" using 2(1) by (intro fl_nonneg) simp
    then have "fl x \<le> 0" by (simp add: fl_minus)
    also have "0 \<le> fl y" using 2(2) by (rule fl_nonneg)
    finally show ?thesis .
  next
    case 3
    have "fl (- y) \<le> fl (- x)" using 3 assms by (intro fl_pos_mono) simp_all
    then show ?thesis by (simp add: fl_minus)
  qed
qed

lemma fl_ge_double: "fl a = a \<Longrightarrow> a \<le> x \<Longrightarrow> a \<le> fl x"
  using fl_mono [of a x] by simp

lemma fl_le_double: "fl b = b \<Longrightarrow> x \<le> b \<Longrightarrow> fl x \<le> b"
  using fl_mono [of x b] by simp

section \<open>Properties of the collision test\<close>

lemma checkCollision_edges:
  "checkCollision r1 r2 =
     (rx r2 \<le> right_edge r1 \<and> rx r1 \<le> right_edge r2 \<and>
      ry r2 \<le> bottom_edge r1 \<and> ry r1 \<le> bottom_edge r2)"
  by (auto simp: checkCollision_def right_edge_def bottom_edge_def)

lemma checkCollision_of_common_point:
  assumes "in_rect r1 p" "in_rect r2 p"
  shows "checkCollision r1 r2"
  using assms unfolding in_rect_def checkCollision_edges by auto

lemma common_point_of_checkCollision:
  assumes "checkCollision r1 r2"
    and "rx r1 \<le> right_edge r1" "ry r1 \<le> bottom_edge r1"
    and "rx r2 \<le> right_edge r2" "ry r2 \<le> bottom_edge r2"
  shows "in_rect r1 (max (rx r1) (rx r2), max (ry r1) (ry r2)) \<and>
         in_rect r2 (max (rx r1) (rx r2), max (ry r1) (ry r2))"
  using assms unfolding in_rect_def checkCollision_edges by auto

lemma no_touch_of_no_collision:
  "\<not> checkCollision r1 r2 \<Longrightarrow> \<not> rects_touch_or_overlap r1 r2"
  unfolding rects_touch_or_overlap_def using checkCollision_of_common_point by blast

lemma no_overlap_of_no_touch:
  "\<not> rects_touch_or_overlap r1 r2 \<Longrightarrow> \<not> interiors_intersect r1 r2"
  unfolding rects_touch_or_overlap_def interiors_intersect_def in_interior_def in_rect_def
  by (meson less_imp_le)

text \<open>
  Rounding is monotone and keeps a double, so a rectangle of doubles with a width and a
  height that are not negative has its computed far edges at or after its near edges.
\<close>

lemma far_edges_of_doubles:
  assumes "fl (rx r) = rx r" "fl (ry r) = ry r" "0 \<le> rwidth r" "0 \<le> rheight r"
  shows "rx r \<le> right_edge r" "ry r \<le> bottom_edge r"
  using assms by (auto simp: right_edge_def bottom_edge_def intro: fl_ge_double)

text \<open>
  The sums of the collision test are rounded: the right edge of a rectangle at
  \<open>x = 1\<close> of width \<open>3 * 2 ^ -54\<close> is computed as \<open>1 + 2 ^ -52\<close>, the double above
  1, so the test reports a collision with a rectangle that begins there, although the
  exact sum lies before it.
\<close>

lemma checkCollision_rounded_sum:
  "(1::real) + 3 / 2 ^ 54 < 1 + 1 / 2 ^ 52 \<and>
   right_edge \<lparr>rx = 1, ry = 0, rwidth = 3 / 2 ^ 54, rheight = 1\<rparr> = 1 + 1 / 2 ^ 52 \<and>
   checkCollision \<lparr>rx = 1, ry = 0, rwidth = 3 / 2 ^ 54, rheight = 1\<rparr>
                  \<lparr>rx = 1 + 1 / 2 ^ 52, ry = 0, rwidth = 1, rheight = 1\<rparr>"
proof -
  have a: "fl (1 + 3 / 2 ^ 54) = 1 + 1 / 2 ^ 52" by code_simp
  have b: "fl (1 + 1 / 2 ^ 52 + 1) = 2" by code_simp
  have r: "right_edge \<lparr>rx = 1, ry = 0, rwidth = 3 / 2 ^ 54, rheight = 1\<rparr> = 1 + 1 / 2 ^ 52"
    unfolding right_edge_def by (simp only: rect.simps a)
  have c: "checkCollision \<lparr>rx = 1, ry = 0, rwidth = 3 / 2 ^ 54, rheight = 1\<rparr>
                  \<lparr>rx = 1 + 1 / 2 ^ 52, ry = 0, rwidth = 1, rheight = 1\<rparr>"
    unfolding checkCollision_def by (simp only: rect.simps a b) simp
  have l: "(1::real) + 3 / 2 ^ 54 < 1 + 1 / 2 ^ 52" by simp
  from l r c show ?thesis by (intro conjI)
qed

text \<open>
  Claim C6, as amended. The claim says that rectangles which merely touch along an edge
  do not collide. \<open>checkCollision\<close> compares with \<open><\<close> in all four tests, so it
  reports a collision exactly when the closed rectangles (edges included) have a point
  in common: touching along an edge or at a corner counts as a collision. A rectangle
  reaches from its near edges \<open>x\<close>, \<open>y\<close> to its far edges as the program computes
  them, the rounded sums \<open>x + width\<close> and \<open>y + height\<close>, and the far edges must not
  lie before the near edges.
\<close>

theorem checkCollision_iff_closed_rectangles_meet:
  assumes "rx r1 \<le> right_edge r1" "ry r1 \<le> bottom_edge r1"
    and "rx r2 \<le> right_edge r2" "ry r2 \<le> bottom_edge r2"
  shows "checkCollision r1 r2 = rects_touch_or_overlap r1 r2"
proof
  assume "checkCollision r1 r2"
  from common_point_of_checkCollision [OF this assms]
  show "rects_touch_or_overlap r1 r2"
    unfolding rects_touch_or_overlap_def by blast
next
  assume "rects_touch_or_overlap r1 r2"
  then show "checkCollision r1 r2"
    unfolding rects_touch_or_overlap_def using checkCollision_of_common_point by blast
qed

theorem checkCollision_iff_closed_rectangles_meet_witness:
  "right_edge \<lparr>rx = 0, ry = 0, rwidth = 10, rheight = 10\<rparr> = 10 \<and>
   bottom_edge \<lparr>rx = 0, ry = 0, rwidth = 10, rheight = 10\<rparr> = 10 \<and>
   right_edge \<lparr>rx = 10, ry = 0, rwidth = 10, rheight = 10\<rparr> = 20 \<and>
   bottom_edge \<lparr>rx = 10, ry = 0, rwidth = 10, rheight = 10\<rparr> = 10 \<and>
   checkCollision \<lparr>rx = 0, ry = 0, rwidth = 10, rheight = 10\<rparr>
                  \<lparr>rx = 10, ry = 0, rwidth = 10, rheight = 10\<rparr> \<and>
   rects_touch_or_overlap \<lparr>rx = 0, ry = 0, rwidth = 10, rheight = 10\<rparr>
                          \<lparr>rx = 10, ry = 0, rwidth = 10, rheight = 10\<rparr>"
  using checkCollision_iff_closed_rectangles_meet
          [of "\<lparr>rx = 0, ry = 0, rwidth = 10, rheight = 10\<rparr>"
              "\<lparr>rx = 10, ry = 0, rwidth = 10, rheight = 10\<rparr>"]
  by (simp add: checkCollision_def right_edge_def bottom_edge_def fl_numeral)

text \<open>
  Claim C6 as stated fails: the squares \<open>[0,10] \<times> [0,10]\<close> and \<open>[10,20] \<times> [0,10]\<close>
  share only the edge \<open>x = 10\<close>, their interiors are disjoint, and the collision test
  reports a collision.
\<close>

theorem checkCollision_touching_counterexample:
  "checkCollision \<lparr>rx = 0, ry = 0, rwidth = 10, rheight = 10\<rparr>
                  \<lparr>rx = 10, ry = 0, rwidth = 10, rheight = 10\<rparr> \<and>
   \<not> interiors_intersect \<lparr>rx = 0, ry = 0, rwidth = 10, rheight = 10\<rparr>
                          \<lparr>rx = 10, ry = 0, rwidth = 10, rheight = 10\<rparr>"
  by (auto simp: checkCollision_def interiors_intersect_def in_interior_def
      right_edge_def bottom_edge_def fl_numeral)

section \<open>Properties of the placement engine\<close>

lemma hasCollision_iff: "hasCollision bs t = (\<exists>b \<in> set bs. checkCollision t b)"
  by (induction bs) auto

lemma hasUICollision_iff:
  "hasUICollision vp t = (\<exists>b \<in> set (exclusionRects vp). checkCollision t b)"
  by (auto simp: hasUICollision_def exclusionRects_def split: option.splits)

lemma findLoop_Some:
  "findLoop vp bounds rnd n i = Some p \<Longrightarrow>
     \<not> hasCollision bounds (boxAt p) \<and> \<not> hasUICollision vp (boxAt p)"
  by (induction n arbitrary: i) (auto simp: Let_def split: if_splits)

lemma findLoop_None_iff:
  "findLoop vp bounds rnd n i = None \<longleftrightarrow>
     (\<forall>k < n. hasCollision bounds (boxAt (candidate vp (rnd (i + k)))) \<or>
               hasUICollision vp (boxAt (candidate vp (rnd (i + k)))))"
proof (induction n arbitrary: i)
  case 0
  then show ?case by simp
next
  case (Suc n)
  show ?case
    apply (simp add: Let_def Suc.IH)
    apply (auto simp: less_Suc_eq_0_disj)
    done
qed

lemma findLoop_cong:
  "(\<And>k. k < n \<Longrightarrow> rnd (i + k) = rnd' (i + k)) \<Longrightarrow>
     findLoop vp bounds rnd n i = findLoop vp bounds rnd' n i"
proof (induction n arbitrary: i)
  case 0
  then show ?case by simp
next
  case (Suc n)
  have a: "rnd i = rnd' i" using Suc.prems [of 0] by simp
  have b: "findLoop vp bounds rnd n (Suc i) = findLoop vp bounds rnd' n (Suc i)"
    using Suc.prems [of "Suc k" for k] by (intro Suc.IH) simp
  show ?case by (simp add: a b Let_def)
qed

lemma findLoop_first:
  "0 < n \<Longrightarrow> \<not> hasCollision bounds (boxAt (candidate vp (rnd i))) \<Longrightarrow>
     \<not> hasUICollision vp (boxAt (candidate vp (rnd i))) \<Longrightarrow>
     findLoop vp bounds rnd n i = Some (candidate vp (rnd i))"
  by (cases n) (simp_all add: Let_def)

lemma MAX_TRIES_pos: "0 < MAX_TRIES"
  by (simp add: MAX_TRIES_def)

text \<open>
  Claim C5. For every character list \<open>cs\<close>, viewport and sequence of random draws:
  a position returned by \<open>findRandomPosition\<close> puts the scaled bounding box clear of
  the bounding box of every existing character and of every exclusion rectangle (the
  scroll-bar strip and, when present, the message box): the collision test fails, the
  boxes do not even touch, and so their interiors do not overlap. When every sample of
  the retry budget of \<open>MAX_TRIES\<close> draws collides, the result is \<open>None\<close> (screen
  full). The function is total and reads no draw beyond the first \<open>MAX_TRIES\<close>, so it
  cannot loop forever.
\<close>

theorem findRandomPosition_avoids_collisions_and_reports_full:
  "(\<forall>p. findRandomPosition vp (map getBounds cs) rnd = Some p \<longrightarrow>
      (\<forall>b \<in> getBounds ` set cs \<union> set (exclusionRects vp).
         \<not> checkCollision (boxAt p) b \<and> \<not> rects_touch_or_overlap (boxAt p) b \<and>
         \<not> interiors_intersect (boxAt p) b)) \<and>
   ((\<forall>i < MAX_TRIES. hasCollision (map getBounds cs) (boxAt (candidate vp (rnd i))) \<or>
                       hasUICollision vp (boxAt (candidate vp (rnd i)))) \<longrightarrow>
      findRandomPosition vp (map getBounds cs) rnd = None) \<and>
   ((\<forall>i < MAX_TRIES. rnd i = rnd' i) \<longrightarrow>
      findRandomPosition vp (map getBounds cs) rnd = findRandomPosition vp (map getBounds cs) rnd')"
proof (intro conjI allI impI ballI)
  fix p b
  assume r: "findRandomPosition vp (map getBounds cs) rnd = Some p"
    and b: "b \<in> getBounds ` set cs \<union> set (exclusionRects vp)"
  from r have "\<not> hasCollision (map getBounds cs) (boxAt p) \<and> \<not> hasUICollision vp (boxAt p)"
    unfolding findRandomPosition_def by (rule findLoop_Some)
  with b show n: "\<not> checkCollision (boxAt p) b"
    by (auto simp: hasCollision_iff hasUICollision_iff)
  then show t: "\<not> rects_touch_or_overlap (boxAt p) b" by (rule no_touch_of_no_collision)
  then show "\<not> interiors_intersect (boxAt p) b" by (rule no_overlap_of_no_touch)
next
  assume "\<forall>i < MAX_TRIES. hasCollision (map getBounds cs) (boxAt (candidate vp (rnd i))) \<or>
                       hasUICollision vp (boxAt (candidate vp (rnd i)))"
  then show "findRandomPosition vp (map getBounds cs) rnd = None"
    unfolding findRandomPosition_def by (simp add: findLoop_None_iff)
next
  assume "\<forall>i < MAX_TRIES. rnd i = rnd' i"
  then show "findRandomPosition vp (map getBounds cs) rnd = findRandomPosition vp (map getBounds cs) rnd'"
    unfolding findRandomPosition_def by (intro findLoop_cong) simp
qed

theorem findRandomPosition_avoids_collisions_and_reports_full_witness:
  "findRandomPosition exampleViewport (map getBounds []) (\<lambda>i. (1/2, 1/2)) = Some \<lparr>px = 344, py = 274\<rparr> \<and>
   \<not> checkCollision (boxAt \<lparr>px = 344, py = 274\<rparr>) (scrollBarRect exampleViewport) \<and>
   hasUICollision exampleViewport (boxAt (candidate exampleViewport (0, 0))) \<and>
   findRandomPosition exampleViewport (map getBounds []) (\<lambda>i. (0, 0)) = None"
proof -
  have c: "candidate exampleViewport (1/2, 1/2) = \<lparr>px = 344, py = 274\<rparr>"
    by (simp add: candidate_def exampleViewport_def charWidth_def charHeight_def
        SPRITE_WIDTH_def SPRITE_HEIGHT_def SCALE_def Let_def)
  have f: "findRandomPosition exampleViewport (map getBounds []) (\<lambda>i. (1/2, 1/2)) = Some \<lparr>px = 344, py = 274\<rparr>"
    unfolding findRandomPosition_def
  proof (subst findLoop_first)
    show "\<not> hasUICollision exampleViewport (boxAt (candidate exampleViewport (1/2, 1/2)))"
      unfolding c
      by (simp add: hasUICollision_def checkCollision_def boxAt_def scrollBarRect_def
          exampleViewport_def charWidth_def charHeight_def SPRITE_WIDTH_def
          SPRITE_HEIGHT_def SCALE_def)
  qed (simp_all add: MAX_TRIES_pos c)
  have z: "hasUICollision exampleViewport (boxAt (candidate exampleViewport (0, 0)))"
    by (simp add: candidate_def exampleViewport_def charWidth_def charHeight_def
        SPRITE_WIDTH_def SPRITE_HEIGHT_def SCALE_def Let_def hasUICollision_def
        checkCollision_def boxAt_def scrollBarRect_def)
  show ?thesis
    using findRandomPosition_avoids_collisions_and_reports_full
            [of exampleViewport "[]" "\<lambda>i. (1/2, 1/2)" "\<lambda>i. (1/2, 1/2)"]
          findRandomPosition_avoids_collisions_and_reports_full
            [of exampleViewport "[]" "\<lambda>i. (0, 0)" "\<lambda>i. (0, 0)"]
          f z
    by (simp add: exclusionRects_def exampleViewport_def)
qed

section \<open>Properties of the frame detector\<close>

lemma scanPixels_Some_fst: "fst (scanPixels bytes (Some f)) = Some f"
  by (induction bytes "Some f" rule: scanPixels.induct) (auto split: prod.splits)

lemma scanPixels_None_iff:
  "scanPixels bytes None = (None, False) \<longleftrightarrow> opaquePixels bytes = []"
proof (induction bytes rule: cellPixels.induct)
  case (1 r g b a rest)
  show ?case
  proof (cases "a > 0")
    case True
    have "fst (scanPixels rest (Some (r, g, b, a))) \<noteq> None"
      by (simp add: scanPixels_Some_fst)
    then have "scanPixels rest (Some (r, g, b, a)) \<noteq> (None, False)" by auto
    with True show ?thesis by (simp add: opaquePixels_def)
  next
    case False
    with 1 show ?thesis by (simp add: opaquePixels_def)
  qed
qed (simp_all add: opaquePixels_def)

lemma scanPixels_None_fst:
  "fst (scanPixels bytes None) = None \<Longrightarrow> scanPixels bytes None = (None, False)"
proof (induction bytes rule: cellPixels.induct)
  case (1 r g b a rest)
  then show ?case by (cases "a > 0") (simp_all add: scanPixels_Some_fst)
qed simp_all

text \<open>
  What \<open>isFrameBlank\<close> decides: a cell is blank exactly when it has no opaque pixel
  at all. The test \<open>firstPixel === null\<close> of line 208 rules out every cell with an
  opaque pixel, whatever \<open>hasContent\<close> says.
\<close>

lemma isFrameBlank_iff_no_opaque_pixel:
  "isFrameBlank sheet frameIndex \<longleftrightarrow>
     opaquePixels (region sheet ((frameIndex mod framesPerRow sheet) * SPRITE_WIDTH)
                                ((frameIndex div framesPerRow sheet) * SPRITE_HEIGHT)) = []"
proof -
  have "(case scanPixels bytes None of (firstPixel, hasContent) \<Rightarrow> \<not> hasContent \<and> firstPixel = None)
        \<longleftrightarrow> opaquePixels bytes = []" for bytes
    using scanPixels_None_iff [of bytes] scanPixels_None_fst [of bytes]
    by (cases "scanPixels bytes None") auto
  then show ?thesis by (simp add: isFrameBlank_def Let_def)
qed

lemma cellPixels_uniform:
  "cellPixels (concat (replicate n [r, g, b, a])) = replicate n (r, g, b, a)"
  by (induction n) simp_all

lemma opaquePixels_redCell:
  "opaquePixels redCell = (255, 0, 0, 255) # replicate 4095 (255, 0, 0, 255)"
proof -
  have e: "SPRITE_WIDTH * SPRITE_HEIGHT = Suc 4095"
    by (simp add: SPRITE_WIDTH_def SPRITE_HEIGHT_def)
  have r: "opaquePixels redCell = replicate (SPRITE_WIDTH * SPRITE_HEIGHT) (255, 0, 0, 255)"
    by (simp add: redCell_def opaquePixels_def cellPixels_uniform)
  show ?thesis unfolding r e by (rule replicate_Suc)
qed

lemma redSheet_never_blank: "isFrameBlank redSheet i = False"
  by (simp add: isFrameBlank_iff_no_opaque_pixel redSheet_def opaquePixels_redCell)

text \<open>
  Claim C3 says that a cell is classified blank if and only if all its opaque pixels
  have the same (r, g, b, a), so that a cell of one uniform opaque colour is blank. The
  code does not do that. On the sheet \<open>redSheet\<close>, whose cells are uniformly opaque
  red, cell 0 satisfies the condition of the claim, yet \<open>isFrameBlank\<close> returns
  \<open>false\<close> for it, and \<open>detectValidFrames\<close> lists all five cells as valid frames.
\<close>

theorem isFrameBlank_uniform_cell_not_blank:
  "uniformOrTransparent (region redSheet 0 0) \<and>
   isFrameBlank redSheet 0 = False \<and>
   detectValidFrames redSheet = \<lparr>framesByRow = [(0, [0, 1, 2, 3, 4])], validRows = [0]\<rparr>"
proof (intro conjI)
  show "uniformOrTransparent (region redSheet 0 0)"
    by (simp add: uniformOrTransparent_def redSheet_def opaquePixels_redCell list_all_iff)
  show "isFrameBlank redSheet 0 = False"
    by (rule redSheet_never_blank)
  have u: "[0..<5::nat] = [0, 1, 2, 3, 4]" by code_simp
  have h: "sheet_height redSheet = 64" by (simp add: redSheet_def)
  show "detectValidFrames redSheet = \<lparr>framesByRow = [(0, [0, 1, 2, 3, 4])], validRows = [0]\<rparr>"
    by (simp add: detectValidFrames_def Let_def redSheet_never_blank framesPerRow_def
        FRAMES_PER_ROW_def SPRITE_HEIGHT_def pushFrame_def h u)
qed

section \<open>Properties of the timeline lookup\<close>

lemma findSong_first:
  "i < length sgs \<Longrightarrow> songContains (sgs ! i) e \<Longrightarrow>
     (\<forall>j < i. \<not> songContains (sgs ! j) e) \<Longrightarrow> findSong sgs e = Some (sgs ! i)"
proof (induction sgs arbitrary: i)
  case Nil
  then show ?case by simp
next
  case (Cons sg rest)
  show ?case
  proof (cases i)
    case 0
    with Cons.prems show ?thesis by (simp add: songContains_def)
  next
    case (Suc k)
    have "\<not> songContains sg e" using Cons.prems(3) Suc by auto
    moreover have "findSong rest e = Some (rest ! k)"
      using Cons.prems Suc by (intro Cons.IH) auto
    ultimately show ?thesis using Suc by (auto simp: songContains_def)
  qed
qed

lemma findSong_None: "(\<forall>sg \<in> set sgs. \<not> songContains sg e) \<Longrightarrow> findSong sgs e = None"
  by (induction sgs) (auto simp: songContains_def)

text \<open>
  Claim C4. For the song list \<open>[intro 0-10, verse 10-40]\<close> the lookup of
  \<open>updateScrollText\<close> gives \<open>intro\<close> at elapsed time 5 and \<open>verse\<close> at 10, 39 and
  100. In general, for every song list and elapsed time: the lookup selects the first
  song whose interval, start included and end excluded, contains the elapsed time; when
  no song contains it and it is at or past the end of the last song, the last song is
  selected; and when it precedes every song (it is before the start of each song, a song
  being an interval whose start is not after its end), the first song is selected.
\<close>

theorem currentSongAt_lookup:
  "currentSongAt exampleSongs 5 = Some introSong \<and>
   currentSongAt exampleSongs 10 = Some verseSong \<and>
   currentSongAt exampleSongs 39 = Some verseSong \<and>
   currentSongAt exampleSongs 100 = Some verseSong \<and>
   (\<forall>i < length sgs. songContains (sgs ! i) e \<and> (\<forall>j < i. \<not> songContains (sgs ! j) e) \<longrightarrow>
        currentSongAt sgs e = Some (sgs ! i)) \<and>
   (sgs \<noteq> [] \<and> (\<forall>sg \<in> set sgs. \<not> songContains sg e) \<and> endTime (last sgs) \<le> e \<longrightarrow>
        currentSongAt sgs e = Some (last sgs)) \<and>
   (sgs \<noteq> [] \<and> (\<forall>sg \<in> set sgs. e < startTime sg \<and> startTime sg \<le> endTime sg) \<longrightarrow>
        currentSongAt sgs e = Some (hd sgs))"
proof (intro conjI allI impI)
  show "currentSongAt exampleSongs 5 = Some introSong"
    by (simp add: currentSongAt_def exampleSongs_def introSong_def verseSong_def)
  show "currentSongAt exampleSongs 10 = Some verseSong"
    by (simp add: currentSongAt_def exampleSongs_def introSong_def verseSong_def)
  show "currentSongAt exampleSongs 39 = Some verseSong"
    by (simp add: currentSongAt_def exampleSongs_def introSong_def verseSong_def)
  show "currentSongAt exampleSongs 100 = Some verseSong"
    by (simp add: currentSongAt_def exampleSongs_def introSong_def verseSong_def)
next
  fix i
  assume "i < length sgs"
    and "songContains (sgs ! i) e \<and> (\<forall>j < i. \<not> songContains (sgs ! j) e)"
  then have "findSong sgs e = Some (sgs ! i)" by (intro findSong_first) auto
  with \<open>i < length sgs\<close> show "currentSongAt sgs e = Some (sgs ! i)"
    by (auto simp: currentSongAt_def)
next
  assume h: "sgs \<noteq> [] \<and> (\<forall>sg \<in> set sgs. \<not> songContains sg e) \<and> endTime (last sgs) \<le> e"
  then have "findSong sgs e = None" by (intro findSong_None) auto
  with h show "currentSongAt sgs e = Some (last sgs)"
    by (auto simp: currentSongAt_def last_conv_nth)
next
  assume h: "sgs \<noteq> [] \<and> (\<forall>sg \<in> set sgs. e < startTime sg \<and> startTime sg \<le> endTime sg)"
  then have "findSong sgs e = None" by (intro findSong_None) (auto simp: songContains_def)
  moreover have "e < endTime (last sgs)"
    using h last_in_set [of sgs] by fastforce
  ultimately show "currentSongAt sgs e = Some (hd sgs)"
    using h by (auto simp: currentSongAt_def last_conv_nth hd_conv_nth)
qed

theorem currentSongAt_lookup_witness:
  "songContains (exampleSongs ! 1) 10 \<and> \<not> songContains (exampleSongs ! 0) 10 \<and>
   currentSongAt exampleSongs 10 = Some (exampleSongs ! 1) \<and>
   \<not> songContains introSong 100 \<and> \<not> songContains verseSong 100 \<and>
   endTime (last exampleSongs) \<le> 100 \<and>
   currentSongAt exampleSongs 100 = Some (last exampleSongs) \<and>
   currentSongAt gapSongs 5 = Some (hd gapSongs)"
  using currentSongAt_lookup [of exampleSongs 10]
        currentSongAt_lookup [of exampleSongs 100]
        currentSongAt_lookup [of gapSongs 5]
  by (simp add: exampleSongs_def introSong_def verseSong_def gapSongs_def songContains_def)

section \<open>Properties of the time strings\<close>

lemma of_char_digitChar: "d < 10 \<Longrightarrow> (of_char (digitChar d) :: nat) = 48 + d"
  by (simp add: digitChar_def)

lemma isDigit_digitChar: "d < 10 \<Longrightarrow> isDigit (digitChar d)"
  by (simp add: isDigit_def digitChar_def)

lemma decimal_digits: "list_all isDigit (decimal n)"
proof (induction n rule: decimal.induct)
  case (1 n)
  show ?case
  proof (cases "n < 10")
    case True
    then show ?thesis by (subst decimal.simps) (simp add: isDigit_digitChar)
  next
    case False
    then show ?thesis using 1 by (subst decimal.simps) (simp add: isDigit_digitChar)
  qed
qed

lemma decimal_nonempty: "decimal n \<noteq> []"
  by (subst decimal.simps) simp

lemma digitsValue_snoc: "digitsValue (ds @ [c]) = 10 * digitsValue ds + int (of_char c - 48)"
  by (simp add: digitsValue_def)

lemma digitsValue_decimal: "0 \<le> n \<Longrightarrow> digitsValue (decimal n) = n"
proof (induction n rule: decimal.induct)
  case (1 n)
  show ?case
  proof (cases "n < 10")
    case True
    then show ?thesis using 1(2)
      by (subst decimal.simps) (simp add: digitsValue_def of_char_digitChar)
  next
    case False
    then have "digitsValue (decimal (n div 10)) = n div 10" using 1 by simp
    with False show ?thesis
      by (subst decimal.simps) (simp add: digitsValue_snoc of_char_digitChar)
  qed
qed

lemma length_decimal: "n < 10 ^ Suc k \<Longrightarrow> length (decimal n) \<le> Suc k"
proof (induction k arbitrary: n)
  case 0
  then show ?case by (subst decimal.simps) simp
next
  case (Suc k)
  show ?case
  proof (cases "n < 10")
    case True
    then show ?thesis by (subst decimal.simps) simp
  next
    case False
    have "n div 10 < 10 ^ Suc k" using Suc.prems by simp
    from Suc.IH [OF this] False show ?thesis by (subst decimal.simps) simp
  qed
qed

lemma digitsValue_zeros: "digitsValue (replicate k (CHR ''0'') @ ds) = digitsValue ds"
proof -
  have "foldl (\<lambda>acc c. 10 * acc + int (of_char c - 48)) 0 (replicate k (CHR ''0'')) = 0"
    by (induction k) simp_all
  then show ?thesis by (simp add: digitsValue_def)
qed

lemma isDigit_not_space: "isDigit c \<Longrightarrow> \<not> isWhiteSpace c"
  by (auto simp: isDigit_def isWhiteSpace_def)

lemma isDigit_not_sign: "isDigit c \<Longrightarrow> c \<noteq> CHR ''-'' \<and> c \<noteq> CHR ''+'' \<and> c \<noteq> CHR '':''"
  by (auto simp: isDigit_def)

lemma parseInt_digits:
  assumes "ds \<noteq> []" "list_all isDigit ds"
  shows "parseInt ds = toNumber (of_int (digitsValue ds))"
proof -
  from assms obtain c rest where ds: "ds = c # rest" by (cases ds) auto
  with assms have c: "isDigit c" by simp
  have t: "takeWhile isDigit rest = rest"
    using assms(2) by (simp add: ds list_all_iff takeWhile_eq_all_conv)
  have d: "dropWhile isWhiteSpace ds = ds"
    using c ds by (simp add: isDigit_not_space)
  show ?thesis
    unfolding parseInt_def d
    using c isDigit_not_sign [OF c] by (simp add: ds t)
qed

lemma splitOn_none: "sep \<notin> set xs \<Longrightarrow> splitOn sep xs = [xs]"
  by (induction xs) auto

lemma splitOn_first: "sep \<notin> set a \<Longrightarrow> splitOn sep (a @ sep # b) = a # splitOn sep b"
  by (induction a) auto

lemma digits_no_colon: "list_all isDigit ds \<Longrightarrow> CHR '':'' \<notin> set ds"
  using isDigit_not_sign by (auto simp: list_all_iff)

lemma readsBackAs_exact:
  assumes "0 \<le> v" "v < 2 ^ 53" "0 \<le> c" "readsBackAs v c"
  shows "c = v"
proof (cases "c < 2 ^ 53")
  case True
  then have "\<bar>c\<bar> < 2 ^ 53" using assms(3) by simp
  from fl_of_int [OF this] assms(4) show ?thesis by (simp add: readsBackAs_def)
next
  case False
  then have "real_of_int (2 ^ 53) \<le> of_int c" by (simp only: of_int_le_iff)
  then have "2 ^ 53 \<le> fl (of_int c)" by (intro fl_ge_2_53) simp
  then have "real_of_int (2 ^ 53) \<le> of_int v" using assms(4) by (simp add: readsBackAs_def)
  then have "2 ^ 53 \<le> v" by (simp only: of_int_le_iff)
  with assms(2) show ?thesis by simp
qed

lemma digitCandidates_exact:
  assumes "0 \<le> v" "v < 2 ^ 53" "c \<in> set (digitCandidates v k)"
  shows "c = v"
proof -
  define p :: int where "p = 10 ^ (length (decimal v) - k)"
  have p: "0 < p" by (simp add: p_def)
  have lo: "0 \<le> (v div p) * p" using assms(1) p by (simp add: pos_imp_zdiv_nonneg_iff)
  from assms(3) have "readsBackAs v c" "c = (v div p) * p \<or> c = (v div p) * p + p"
    by (auto simp: digitCandidates_def Let_def p_def split: if_splits)
  moreover from this(2) lo p have "0 \<le> c" by auto
  ultimately show ?thesis using readsBackAs_exact [OF assms(1,2)] by blast
qed

lemma nearest_in: "nearest v k cs \<in> insert v (set cs)"
  by (auto simp: nearest_def split: list.splits)

lemma shortestDigits_exact:
  assumes "0 \<le> v" "v < 2 ^ 53"
  shows "shortestDigits v = v"
proof (cases "find (\<lambda>k. digitCandidates v k \<noteq> []) [1..<18]")
  case None
  then show ?thesis by (simp add: shortestDigits_def)
next
  case (Some k)
  have "nearest v k (digitCandidates v k) \<in> insert v (set (digitCandidates v k))"
    by (rule nearest_in)
  then have "nearest v k (digitCandidates v k) = v"
    using digitCandidates_exact [OF assms] by blast
  with Some show ?thesis by (simp add: shortestDigits_def)
qed

lemma numberToString_decimal:
  assumes "0 \<le> v" "v < 2 ^ 53"
  shows "numberToString v = decimal v"
proof -
  have "v < 10 ^ Suc 20" using assms(2) by simp
  from length_decimal [OF this] have "length (decimal v) \<le> 21" by simp
  then show ?thesis
    using assms by (simp add: numberToString_def shortestDigits_exact render_def Let_def)
qed

lemma parseInt_decimal:
  assumes "ds \<noteq> []" "list_all isDigit ds" "digitsValue ds = k" "\<bar>k\<bar> < 2 ^ 53"
  shows "parseInt ds = Num (of_int k)"
  using parseInt_digits [OF assms(1,2)] toNumber_of_int [OF assms(4)] assms(3) by simp

text \<open>
  Claim C10, as amended. For every non-negative integer \<open>n\<close> below \<open>2 ^ 53\<close>, the
  string that \<open>secondsToTime\<close> makes of \<open>n\<close> seconds is parsed back by
  \<open>timeToSeconds\<close> to exactly \<open>n\<close>.
\<close>

theorem timeToSeconds_secondsToTime:
  assumes "0 \<le> n" "n < 2 ^ 53"
  shows "timeToSeconds (secondsToTime n) = Num (of_int n)"
proof -
  define q where "q = n div 60"
  define r where "r = n mod 60"
  define m where "m = decimal q"
  define s where "s = padStart 2 (CHR ''0'') (decimal r)"
  have q: "0 \<le> q" "q < 2 ^ 53" "q * 60 < 2 ^ 53"
    using assms by (simp_all add: q_def pos_imp_zdiv_nonneg_iff)
  have r: "0 \<le> r" "r < 2 ^ 53" using assms by (simp_all add: r_def) 
  have str: "secondsToTime n = m @ CHR '':'' # s"
    using assms q r
    by (simp add: secondsToTime_def floor_fl_div_60 Let_def numberToString_decimal
        m_def s_def q_def [symmetric] r_def [symmetric])
  have md: "list_all isDigit m" "m \<noteq> []"
    by (simp_all add: m_def decimal_digits decimal_nonempty)
  have z: "isDigit (CHR ''0'')" by (simp add: isDigit_def)
  have sd: "list_all isDigit s" "s \<noteq> []"
    using decimal_digits [of r] z
    by (auto simp: s_def padStart_def decimal_nonempty list_all_iff)
  have parts: "splitOn (CHR '':'') (secondsToTime n) = [m, s]"
    unfolding str using md sd by (simp add: splitOn_first splitOn_none digits_no_colon)
  have pm: "parseInt m = Num (of_int q)"
    using q by (simp add: parseInt_digits md) (simp add: m_def digitsValue_decimal toNumber_of_int)
  have ps: "parseInt s = Num (of_int r)"
    using r by (simp add: parseInt_digits sd)
      (simp add: s_def padStart_def digitsValue_zeros digitsValue_decimal toNumber_of_int)
  have "\<bar>q * 60\<bar> < 2 ^ 53" using q by simp
  from toNumber_of_int [OF this]
  have mul: "mulN (Num (of_int q)) (Num 60) = Num (of_int (q * 60))" by simp
  have "q * 60 + r = n" by (simp add: q_def r_def)
  moreover have "\<bar>n\<bar> < 2 ^ 53" using assms by simp
  ultimately have "toNumber (of_int (q * 60 + r)) = Num (of_int n)"
    using toNumber_of_int [of n] by simp
  then have add: "addN (Num (of_int (q * 60))) (Num (of_int r)) = Num (of_int n)"
    by simp
  have "timeToSeconds (secondsToTime n)
          = addN (mulN (parseInt m) (Num 60)) (parseInt s)"
    unfolding timeToSeconds_def parts by (simp add: at_index_def)
  also have "\<dots> = Num (of_int n)"
    by (simp only: pm ps mul add)
  finally show ?thesis .
qed

theorem timeToSeconds_secondsToTime_witness:
  "(0::int) \<le> 442 \<and> (442::int) < 2 ^ 53 \<and> secondsToTime 442 = ''7:22'' \<and>
   timeToSeconds ''7:22'' = Num 442"
proof -
  have s: "secondsToTime 442 = ''7:22''" by code_simp
  show ?thesis using timeToSeconds_secondsToTime [of 442] by (simp add: s)
qed

text \<open>
  Claim C10 as stated fails: the round trip is not exact for every non-negative
  integer. The second count 36028797018964024 is a double; \<open>secondsToTime\<close> prints it
  as 600479950316067 minutes and 04 seconds, and \<open>timeToSeconds\<close> rounds both the
  product \<open>600479950316067 * 60\<close> and the sum with 4 to 36028797018964016.
\<close>

theorem round_trip_beyond_2_53_counterexample:
  "fl 36028797018964024 = 36028797018964024 \<and>
   secondsToTime 36028797018964024 = ''600479950316067:04'' \<and>
   timeToSeconds ''600479950316067:04'' = Num 36028797018964016"
proof -
  have d: "fl 36028797018964024 = 36028797018964024" by code_simp
  have f: "\<lfloor>fl (real_of_int 36028797018964024 / 60)\<rfloor> = 600479950316067" by code_simp
  have m: "numberToString 600479950316067 = ''600479950316067''"
    by (simp add: numberToString_decimal) code_simp
  have s: "padStart 2 (CHR ''0'') (numberToString 4) = ''04''"
    by (simp add: numberToString_decimal) code_simp
  have a: "secondsToTime 36028797018964024 = ''600479950316067:04''"
    unfolding secondsToTime_def Let_def f by (simp add: m s)
  have parts: "splitOn (CHR '':'') ''600479950316067:04'' = [''600479950316067'', ''04'']"
    by code_simp
  have pm: "parseInt ''600479950316067'' = Num (of_int 600479950316067)"
    by (rule parseInt_decimal) (code_simp, code_simp, code_simp, simp)
  have ps: "parseInt ''04'' = Num (of_int 4)"
    by (rule parseInt_decimal) (code_simp, code_simp, code_simp, simp)
  have f1: "fl (600479950316067 * 60) = 36028797018964016" by code_simp
  have f2: "fl (36028797018964016 + 4) = 36028797018964016" by code_simp
  have mul: "mulN (Num 600479950316067) (Num 60) = Num 36028797018964016"
    using toNumber_finite [OF f1] by simp
  have add: "addN (Num 36028797018964016) (Num 4) = Num 36028797018964016"
    using toNumber_finite [OF f2] by simp
  have "timeToSeconds ''600479950316067:04''
          = addN (mulN (parseInt ''600479950316067'') (Num 60)) (parseInt ''04'')"
    unfolding timeToSeconds_def parts by (simp add: at_index_def)
  also have "\<dots> = Num 36028797018964016"
    by (simp only: pm ps of_int_numeral mul add)
  finally show ?thesis using d a by simp
qed

text \<open>
  From \<open>10 ^ 21\<close> on a number is printed in exponent notation, of which
  \<open>parseInt\<close> reads the digits before the first other character.
\<close>

lemma secondsToTime_exponent_notation:
  "secondsToTime 60000000000000000000000 = ''1e+21:00'' \<and>
   parseInt ''1e+21'' = Num 1"
proof -
  have a: "secondsToTime 60000000000000000000000 = ''1e+21:00''" by code_simp
  have t: "takeWhile isDigit ''1e+21'' = ''1''" by code_simp
  have d: "digitsValue ''1'' = 1" by code_simp
  have w: "dropWhile isWhiteSpace ''1e+21'' = ''1e+21''" by code_simp
  have "parseInt ''1e+21'' = toNumber (of_int 1)"
    unfolding parseInt_def w by (simp add: t d del: takeWhile.simps)
  with toNumber_of_int [of 1] a show ?thesis by simp
qed

section \<open>Properties of the character animation\<close>

lemma update_advance:
  assumes "\<not> isCenterCharacter c" "Suc (currentFrameIndex c) < length (validFrames c)"
    and "frameChangeInterval c \<le> real_of_int (now - lastFrameTime c)"
  shows "update sp now r c =
           Inr (c\<lparr>lastFrameTime := now, currentFrameIndex := Suc (currentFrameIndex c),
                  currentFrame := Some (validFrames c ! Suc (currentFrameIndex c))\<rparr>)"
  using assms by (auto simp: update_def Let_def)

lemma update_wrap:
  assumes "\<not> isCenterCharacter c" "Suc (currentFrameIndex c) = length (validFrames c)"
    and "frameChangeInterval c \<le> real_of_int (now - lastFrameTime c)"
  shows "update sp now r c = wrapped sp now r c"
  using assms by (auto simp: update_def wrapped_def Let_def)

lemma wrapped_cong:
  assumes "validFrames c' = validFrames c" "rowRepeatCount c' = rowRepeatCount c"
    "currentRowRepeatTarget c' = currentRowRepeatTarget c"
    "c'\<lparr>lastFrameTime := now, currentFrameIndex := 0,
                 currentFrame := Some (validFrames c ! 0),
                 rowRepeatCount := rowRepeatCount c + 1\<rparr> = c\<lparr>lastFrameTime := now, currentFrameIndex := 0,
                 currentFrame := Some (validFrames c ! 0),
                 rowRepeatCount := rowRepeatCount c + 1\<rparr>"
  shows "wrapped sp now r c' = wrapped sp now r c"
  using assms by (simp add: wrapped_def)

lemma updates_full_cycle:
  assumes "\<not> isCenterCharacter c" "ticks \<noteq> []"
    and "currentFrameIndex c + length ticks = length (validFrames c)"
    and "elapsedTicks (lastFrameTime c) (frameChangeInterval c) ticks"
  shows "updates sp ticks c = wrapped sp (fst (last ticks)) (snd (last ticks)) c"
  using assms
proof (induction ticks arbitrary: c)
  case Nil
  then show ?case by simp
next
  case (Cons t rest)
  obtain now r where t: "t = (now, r)" by (cases t)
  have el: "frameChangeInterval c \<le> real_of_int (now - lastFrameTime c)"
    using Cons.prems(4) t by simp
  show ?case
  proof (cases rest)
    case Nil
    then have "Suc (currentFrameIndex c) = length (validFrames c)" using Cons.prems(3) by simp
    from update_wrap [OF Cons.prems(1) this el]
    show ?thesis using Nil t by (simp add: wrapped_def Let_def split: sum.splits)
  next
    case (Cons t' rest')
    then have lt: "Suc (currentFrameIndex c) < length (validFrames c)"
      using Cons.prems(3) by simp
    define c2 where "c2 = c\<lparr>lastFrameTime := now, currentFrameIndex := Suc (currentFrameIndex c),
                  currentFrame := Some (validFrames c ! Suc (currentFrameIndex c))\<rparr>"
    have u: "update sp now r c = Inr c2"
      unfolding c2_def by (rule update_advance [OF Cons.prems(1) lt el])
    have "updates sp rest c2 = wrapped sp (fst (last rest)) (snd (last rest)) c2"
    proof (rule Cons.IH)
      show "\<not> isCenterCharacter c2" using Cons.prems(1) by (simp add: c2_def)
      show "rest \<noteq> []" using Cons by simp
      show "currentFrameIndex c2 + length rest = length (validFrames c2)"
        using Cons.prems(3) by (simp add: c2_def)
      show "elapsedTicks (lastFrameTime c2) (frameChangeInterval c2) rest"
        using Cons.prems(4) t by (simp add: c2_def)
    qed
    also have "\<dots> = wrapped sp (fst (last rest)) (snd (last rest)) c"
      by (rule wrapped_cong) (simp_all add: c2_def)
    finally show ?thesis using u t Cons by simp
  qed
qed

lemma selectRandomRow_no_rows: "validRows sp = [] \<Longrightarrow> selectRandomRow sp r c = Inr c"
  by (simp add: selectRandomRow_def)

lemma selectRandomRow_row:
  assumes "validRows sp \<noteq> []"
  shows "selectRandomRow sp r c =
           (case at_index (validRows sp) \<lfloor>fl (r * real (length (validRows sp)))\<rfloor> of
              None \<Rightarrow> Inl TypeError
            | Some row \<Rightarrow>
                (case map_of (framesByRow sp) row of
                   None \<Rightarrow> Inl TypeError
                 | Some frames \<Rightarrow> Inr (inRow frames c)))"
  using assms by (simp add: selectRandomRow_def inRow_def split: option.splits)

text \<open>
  Claim C7, as amended. Take a non-center character whose row has \<open>rowLength\<close> valid
  frames (at least one) and whose frame cursor is at 0, and let it receive exactly
  \<open>rowLength\<close> elapsed-interval ticks, the last at clock value \<open>now\<close> with the
  random number \<open>r\<close>. Then:
  \<^item> if the repeat counter plus one is still below the repeat target, or if there is no
    valid row at all, the run returns the character with its row unchanged, the frame
    cursor back at 0 on the first frame of the row, and the repeat counter incremented
    by exactly 1 (\<open>cycled now c\<close>);
  \<^item> if the repeat counter plus one reaches the repeat target and there are valid rows,
    the last tick selects the entry of \<open>validRows\<close> at index
    \<open>Math.floor(r * validRows.length)\<close>: the run returns the character in that row,
    with the row's frames in ascending order, the repeat target equal to their number,
    the frame cursor at 0 on the first of them and the repeat counter 0
    (\<open>inRow frames (cycled now c)\<close>); it throws a \<open>TypeError\<close> when the index is out
    of range or the row has no entry in \<open>framesByRow\<close>.
\<close>

theorem updates_row_cycle:
  assumes "\<not> isCenterCharacter c" "validFrames c \<noteq> []" "currentFrameIndex c = 0"
    and "length ticks = length (validFrames c)"
    and "elapsedTicks (lastFrameTime c) (frameChangeInterval c) ticks"
  shows "(rowRepeatCount c + 1 < currentRowRepeatTarget c \<or> validRows sp = [] \<longrightarrow>
            updates sp ticks c = Inr (cycled (fst (last ticks)) c)) \<and>
         (currentRowRepeatTarget c \<le> rowRepeatCount c + 1 \<and> validRows sp \<noteq> [] \<longrightarrow>
            updates sp ticks c =
              (case at_index (validRows sp)
                      \<lfloor>fl (snd (last ticks) * real (length (validRows sp)))\<rfloor> of
                 None \<Rightarrow> Inl TypeError
               | Some row \<Rightarrow>
                   (case map_of (framesByRow sp) row of
                      None \<Rightarrow> Inl TypeError
                    | Some frames \<Rightarrow> Inr (inRow frames (cycled (fst (last ticks)) c)))))"
proof -
  have ne: "ticks \<noteq> []" using assms(2,4) by auto
  have u: "updates sp ticks c = wrapped sp (fst (last ticks)) (snd (last ticks)) c"
    using assms by (intro updates_full_cycle ne) simp_all
  have w: "wrapped sp now r c =
             (if currentRowRepeatTarget c \<le> rowRepeatCount c + 1
              then selectRandomRow sp r (cycled now c) else Inr (cycled now c))" for now r
    by (simp add: wrapped_def cycled_def Let_def)
  show ?thesis
  proof (intro conjI impI)
    assume "rowRepeatCount c + 1 < currentRowRepeatTarget c \<or> validRows sp = []"
    then show "updates sp ticks c = Inr (cycled (fst (last ticks)) c)"
      unfolding u w by (auto simp: selectRandomRow_no_rows)
  next
    assume h: "currentRowRepeatTarget c \<le> rowRepeatCount c + 1 \<and> validRows sp \<noteq> []"
    then have "updates sp ticks c
                 = selectRandomRow sp (snd (last ticks)) (cycled (fst (last ticks)) c)"
      unfolding u w by simp
    also have "\<dots> = (case at_index (validRows sp)
                      \<lfloor>fl (snd (last ticks) * real (length (validRows sp)))\<rfloor> of
                 None \<Rightarrow> Inl TypeError
               | Some row \<Rightarrow>
                   (case map_of (framesByRow sp) row of
                      None \<Rightarrow> Inl TypeError
                    | Some frames \<Rightarrow> Inr (inRow frames (cycled (fst (last ticks)) c))))"
      using h by (intro selectRandomRow_row) simp
    finally show "updates sp ticks c =
              (case at_index (validRows sp)
                      \<lfloor>fl (snd (last ticks) * real (length (validRows sp)))\<rfloor> of
                 None \<Rightarrow> Inl TypeError
               | Some row \<Rightarrow>
                   (case map_of (framesByRow sp) row of
                      None \<Rightarrow> Inl TypeError
                    | Some frames \<Rightarrow> Inr (inRow frames (cycled (fst (last ticks)) c))))" .
  qed
qed

lemma walker1_constructed:
  "newCharacter oneFrameSprites 0 (1/2) 0 7 100 100 False = Inr walker1"
  by (simp add: newCharacter_def selectRandomRow_def oneFrameSprites_def walker1_def
      at_index_def SPRITE_WIDTH_def SPRITE_HEIGHT_def SCALE_def)

lemma walker2_constructed:
  "newCharacter twoFrameSprites 0 (1/2) 0 7 100 100 False = Inr walker2"
  by (simp add: newCharacter_def selectRandomRow_def twoFrameSprites_def walker2_def
      at_index_def SPRITE_WIDTH_def SPRITE_HEIGHT_def SCALE_def)


lemma walker1_tick:
  "updates oneFrameSprites [(1000, 0)] walker1 = Inr (walker1\<lparr>lastFrameTime := 1000\<rparr>)"
  by (simp add: update_def selectRandomRow_def oneFrameSprites_def walker1_def at_index_def)

lemma walker2_ticks:
  "updates twoFrameSprites [(1000, 0), (2000, 0)] walker2
     = Inr (walker2\<lparr>lastFrameTime := 2000, rowRepeatCount := 1\<rparr>)"
  by (simp add: update_def selectRandomRow_def twoFrameSprites_def walker2_def at_index_def)

text \<open>
  Claim C7 as stated fails on a row with a single valid frame. The character
  \<open>walker1\<close>, as the constructor builds it, has row length 1, cursor 0 and repeat
  counter 0. After one elapsed-interval tick the counter would have to be 1; the tick
  wraps the cursor, raises the counter to the repeat target 1 and so selects a new row,
  which resets the counter to 0.
\<close>

theorem updates_single_frame_row_counterexample:
  "newCharacter oneFrameSprites 0 (1/2) 0 7 100 100 False = Inr walker1 \<and>
   \<not> isCenterCharacter walker1 \<and> length (validFrames walker1) = 1 \<and>
   currentFrameIndex walker1 = 0 \<and> rowRepeatCount walker1 = 0 \<and>
   elapsedTicks (lastFrameTime walker1) (frameChangeInterval walker1) [(1000, 0)] \<and>
   updates oneFrameSprites [(1000, 0)] walker1 = Inr (walker1\<lparr>lastFrameTime := 1000\<rparr>) \<and>
   rowRepeatCount (walker1\<lparr>lastFrameTime := 1000\<rparr>) \<noteq> rowRepeatCount walker1 + 1"
proof (intro conjI)
  show "newCharacter oneFrameSprites 0 (1/2) 0 7 100 100 False = Inr walker1"
    by (rule walker1_constructed)
  show "updates oneFrameSprites [(1000, 0)] walker1 = Inr (walker1\<lparr>lastFrameTime := 1000\<rparr>)"
    by (rule walker1_tick)
qed (simp_all add: walker1_def)

theorem updates_row_cycle_witness:
  "\<not> isCenterCharacter walker2 \<and> validFrames walker2 \<noteq> [] \<and> currentFrameIndex walker2 = 0 \<and>
   length [(1000::int, 0::real), (2000, 0)] = length (validFrames walker2) \<and>
   elapsedTicks (lastFrameTime walker2) (frameChangeInterval walker2) [(1000, 0), (2000, 0)] \<and>
   rowRepeatCount walker2 + 1 < currentRowRepeatTarget walker2 \<and>
   updates twoFrameSprites [(1000, 0), (2000, 0)] walker2 = Inr (cycled 2000 walker2) \<and>
   cycled 2000 walker2 = walker2\<lparr>lastFrameTime := 2000, rowRepeatCount := 1\<rparr> \<and>
   updates noSprites [(1000, 0)] walker1 = Inr (cycled 1000 walker1) \<and>
   cycled 1000 walker1 = walker1\<lparr>lastFrameTime := 1000, rowRepeatCount := 1\<rparr> \<and>
   currentRowRepeatTarget walker1 \<le> rowRepeatCount walker1 + 1 \<and>
   at_index (validRows twoRowSprites) \<lfloor>fl ((1/2) * real (length (validRows twoRowSprites)))\<rfloor>
     = Some 2 \<and>
   map_of (framesByRow twoRowSprites) 2 = Some [11, 10] \<and>
   updates twoRowSprites [(1000, 1/2)] walker1 = Inr (inRow [11, 10] (cycled 1000 walker1)) \<and>
   inRow [11, 10] (cycled 1000 walker1)
     = walker1\<lparr>lastFrameTime := 1000, validFrames := [10, 11], currentFrame := Some 10,
               currentRowRepeatTarget := 2\<rparr>"
proof -
  have h1: "\<not> isCenterCharacter walker2" by (simp add: walker2_def)
  have h2: "validFrames walker2 \<noteq> []" by (simp add: walker2_def)
  have h3: "currentFrameIndex walker2 = 0" by (simp add: walker2_def)
  have h4: "length [(1000::int, 0::real), (2000, 0)] = length (validFrames walker2)"
    by (simp add: walker2_def)
  have h5: "elapsedTicks (lastFrameTime walker2) (frameChangeInterval walker2) [(1000, 0), (2000, 0)]"
    by (simp add: walker2_def)
  have h6: "rowRepeatCount walker2 + 1 < currentRowRepeatTarget walker2"
    by (simp add: walker2_def)
  from updates_row_cycle [OF h1 h2 h3 h4 h5, of twoFrameSprites, THEN conjunct1, THEN mp, OF disjI1, OF h6]
  have a: "updates twoFrameSprites [(1000, 0), (2000, 0)] walker2 = Inr (cycled 2000 walker2)"
    by simp
  have a': "cycled 2000 walker2 = walker2\<lparr>lastFrameTime := 2000, rowRepeatCount := 1\<rparr>"
    by (simp add: cycled_def walker2_def)
  have g1: "\<not> isCenterCharacter walker1" by (simp add: walker1_def)
  have g2: "validFrames walker1 \<noteq> []" by (simp add: walker1_def)
  have g3: "currentFrameIndex walker1 = 0" by (simp add: walker1_def)
  have g4: "length [(1000::int, 0::real)] = length (validFrames walker1)"
    by (simp add: walker1_def)
  have g5: "elapsedTicks (lastFrameTime walker1) (frameChangeInterval walker1) [(1000, 0)]"
    by (simp add: walker1_def)
  have g6: "currentRowRepeatTarget walker1 \<le> rowRepeatCount walker1 + 1"
    by (simp add: walker1_def)
  have nr: "validRows noSprites = []" by (simp add: noSprites_def)
  from updates_row_cycle [OF g1 g2 g3 g4 g5, of noSprites, THEN conjunct1, THEN mp, OF disjI2, OF nr]
  have b: "updates noSprites [(1000, 0)] walker1 = Inr (cycled 1000 walker1)"
    by simp
  have b': "cycled 1000 walker1 = walker1\<lparr>lastFrameTime := 1000, rowRepeatCount := 1\<rparr>"
    by (simp add: cycled_def walker1_def)
  have k4: "length [(1000::int, 1/2::real)] = length (validFrames walker1)"
    by (simp add: walker1_def)
  have k5: "elapsedTicks (lastFrameTime walker1) (frameChangeInterval walker1) [(1000, 1/2)]"
    by (simp add: walker1_def)
  have i: "at_index (validRows twoRowSprites)
             \<lfloor>fl ((1/2) * real (length (validRows twoRowSprites)))\<rfloor> = Some 2"
    by (simp add: twoRowSprites_def fl_one at_index_def)
  have m: "map_of (framesByRow twoRowSprites) 2 = Some [11, 10]"
    by (simp add: twoRowSprites_def)
  have v: "validRows twoRowSprites \<noteq> []" by (simp add: twoRowSprites_def)
  have l: "last [(1000::int, 1/2::real)] = (1000, 1/2)" by simp
  have c: "currentRowRepeatTarget walker1 \<le> rowRepeatCount walker1 + 1 \<and>
           validRows twoRowSprites \<noteq> []"
    using g6 v by simp
  from updates_row_cycle [OF g1 g2 g3 k4 k5, of twoRowSprites, THEN conjunct2, THEN mp, OF c]
  have d: "updates twoRowSprites [(1000, 1/2)] walker1 = Inr (inRow [11, 10] (cycled 1000 walker1))"
    by (simp only: l fst_conv snd_conv i m option.case)
  have s: "sort [11, 10::nat] = [10, 11]" by simp
  have d': "inRow [11, 10] (cycled 1000 walker1)
     = walker1\<lparr>lastFrameTime := 1000, validFrames := [10, 11], currentFrame := Some 10,
               currentRowRepeatTarget := 2\<rparr>"
    by (simp add: inRow_def cycled_def s at_index_def) (simp add: walker1_def)
  show ?thesis
    using h1 h2 h3 h4 h5 h6 a a' b b' g6 i m d d' by (intro conjI)
qed

section \<open>Properties of the playback session\<close>

lemma updateScrollText_fields [simp]:
  "characters (updateScrollText s) = characters s"
  "spawnTimer (updateScrollText s) = spawnTimer s"
  "gameStarted (updateScrollText s) = gameStarted s"
  "centerCharacter (updateScrollText s) = centerCharacter s"
  "backgroundAudio (updateScrollText s) = backgroundAudio s"
  "songs (updateScrollText s) = songs s"
  "songTimer (updateScrollText s) = songTimer s"
  "elapsedTime (updateScrollText s) = elapsedTime s"
  "startTime_ms (updateScrollText s) = startTime_ms s"
  "hasEverStarted (updateScrollText s) = hasEverStarted s"
  "audioDuration (updateScrollText s) = audioDuration s"
  "timers (updateScrollText s) = timers s"
  "nextTimer (updateScrollText s) = nextTimer s"
  "nextOid (updateScrollText s) = nextOid s"
  by (simp_all add: updateScrollText_def split: option.splits)

lemma scheduleNextSpawn_fields [simp]:
  "characters (scheduleNextSpawn r s) = characters s"
  "spawnTimer (scheduleNextSpawn r s) = Some (nextTimer s)"
  "gameStarted (scheduleNextSpawn r s) = gameStarted s"
  "centerCharacter (scheduleNextSpawn r s) = centerCharacter s"
  "backgroundAudio (scheduleNextSpawn r s) = backgroundAudio s"
  "songs (scheduleNextSpawn r s) = songs s"
  "songTimer (scheduleNextSpawn r s) = songTimer s"
  "elapsedTime (scheduleNextSpawn r s) = elapsedTime s"
  "startTime_ms (scheduleNextSpawn r s) = startTime_ms s"
  "hasEverStarted (scheduleNextSpawn r s) = hasEverStarted s"
  "audioDuration (scheduleNextSpawn r s) = audioDuration s"
  "timers (scheduleNextSpawn r s) =
     timers s @ [\<lparr>tid = nextTimer s,
                   delay = fl (CHARACTER_SPAWN_INTERVAL + fl (fl (fl (r * 6) - 3) * 1000)),
                   job = SpawnJob\<rparr>]"
  "nextTimer (scheduleNextSpawn r s) = nextTimer s + 1"
  "nextOid (scheduleNextSpawn r s) = nextOid s"
  by (simp_all add: scheduleNextSpawn_def setTimer_def Let_def)

lemma clearTimer_fields [simp]:
  "characters (clearTimer i s) = characters s"
  "spawnTimer (clearTimer i s) = spawnTimer s"
  "gameStarted (clearTimer i s) = gameStarted s"
  "centerCharacter (clearTimer i s) = centerCharacter s"
  "backgroundAudio (clearTimer i s) = backgroundAudio s"
  "songs (clearTimer i s) = songs s"
  "songTimer (clearTimer i s) = songTimer s"
  "elapsedTime (clearTimer i s) = elapsedTime s"
  "startTime_ms (clearTimer i s) = startTime_ms s"
  "hasEverStarted (clearTimer i s) = hasEverStarted s"
  "audioDuration (clearTimer i s) = audioDuration s"
  "timers (clearTimer i s) = filter (\<lambda>t. tid t \<noteq> i) (timers s)"
  "nextTimer (clearTimer i s) = nextTimer s"
  "nextOid (clearTimer i s) = nextOid s"
  by (simp_all add: clearTimer_def)

lemma start_fields:
  assumes "\<not> gameStarted s"
  shows "gameStarted (handleMessageBoxClick now r s)"
    "elapsedTime (handleMessageBoxClick now r s) = 0"
    "startTime_ms (handleMessageBoxClick now r s) = Some now"
    "songTimer (handleMessageBoxClick now r s) = Some (nextTimer s)"
    "spawnTimer (handleMessageBoxClick now r s) = Some (nextTimer s + 1)"
    "hasEverStarted (handleMessageBoxClick now r s)"
    "songs (handleMessageBoxClick now r s) = songs s"
    "audioDuration (handleMessageBoxClick now r s) = audioDuration s"
    "nextTimer (handleMessageBoxClick now r s) = nextTimer s + 2"
    "nextOid (handleMessageBoxClick now r s) = nextOid s"
    "timers (handleMessageBoxClick now r s) =
       timers s @ [\<lparr>tid = nextTimer s, delay = 100, job = SongJob\<rparr>,
                   \<lparr>tid = nextTimer s + 1,
                    delay = fl (CHARACTER_SPAWN_INTERVAL + fl (fl (fl (r * 6) - 3) * 1000)),
                    job = SpawnJob\<rparr>]"
    "map oid (characters (handleMessageBoxClick now r s)) = map oid (characters s)"
    "map isCenterCharacter (characters (handleMessageBoxClick now r s)) = map isCenterCharacter (characters s)"
    "map getBounds (characters (handleMessageBoxClick now r s)) = map getBounds (characters s)"
    "backgroundAudio (handleMessageBoxClick now r s) = map_option (\<lambda>a. a\<lparr>paused := False\<rparr>) (backgroundAudio s)"
  using assms
  by (simp_all add: handleMessageBoxClick_def setTimer_def Let_def startInitialFrameTimer_def
      getBounds_def comp_def)

lemma pause_fields:
  assumes "gameStarted s"
  shows "\<not> gameStarted (handleMessageBoxClick now r s)"
    "elapsedTime (handleMessageBoxClick now r s) = elapsedTime s"
    "startTime_ms (handleMessageBoxClick now r s) = startTime_ms s"
    "songTimer (handleMessageBoxClick now r s) = None"
    "spawnTimer (handleMessageBoxClick now r s) = None"
    "hasEverStarted (handleMessageBoxClick now r s) = hasEverStarted s"
    "songs (handleMessageBoxClick now r s) = songs s"
    "audioDuration (handleMessageBoxClick now r s) = audioDuration s"
    "nextTimer (handleMessageBoxClick now r s) = nextTimer s"
    "nextOid (handleMessageBoxClick now r s) = nextOid s"
    "timers (handleMessageBoxClick now r s) =
       filter (\<lambda>t. Some (tid t) \<noteq> songTimer s \<and> Some (tid t) \<noteq> spawnTimer s) (timers s)"
    "characters (handleMessageBoxClick now r s) = characters s"
    "backgroundAudio (handleMessageBoxClick now r s) = map_option (\<lambda>a. a\<lparr>paused := True\<rparr>) (backgroundAudio s)"
  using assms
  by (auto simp: handleMessageBoxClick_def Let_def split: option.splits intro: filter_cong)

lemma songTick_fields [simp]:
  "characters (songTick now s) = characters s"
  "spawnTimer (songTick now s) = spawnTimer s"
  "gameStarted (songTick now s) = gameStarted s"
  "songs (songTick now s) = songs s"
  "songTimer (songTick now s) = songTimer s"
  "elapsedTime (songTick now s) = (now - (case startTime_ms s of None \<Rightarrow> 0 | Some t \<Rightarrow> t)) div 1000"
  "startTime_ms (songTick now s) = startTime_ms s"
  "hasEverStarted (songTick now s) = hasEverStarted s"
  "audioDuration (songTick now s) = audioDuration s"
  "timers (songTick now s) = timers s"
  "nextTimer (songTick now s) = nextTimer s"
  "nextOid (songTick now s) = nextOid s"
  by (simp_all add: songTick_def)

lemma addCharacter_fields:
  assumes "addCharacter vp sp now rnd r1 r2 s = Inr s1"
  shows "gameStarted s1 = gameStarted s" "songs s1 = songs s" "songTimer s1 = songTimer s"
    "elapsedTime s1 = elapsedTime s" "startTime_ms s1 = startTime_ms s"
    "hasEverStarted s1 = hasEverStarted s" "audioDuration s1 = audioDuration s"
    "nextTimer s1 = nextTimer s" "set (timers s1) \<subseteq> set (timers s)"
  using assms
  by (auto simp: addCharacter_def split: option.splits sum.splits)

lemma spawnCallback_fields [simp]:
  "gameStarted (spawnCallback vp sp inp s) = gameStarted s"
  "songs (spawnCallback vp sp inp s) = songs s"
  "songTimer (spawnCallback vp sp inp s) = songTimer s"
  "elapsedTime (spawnCallback vp sp inp s) = elapsedTime s"
  "startTime_ms (spawnCallback vp sp inp s) = startTime_ms s"
  "hasEverStarted (spawnCallback vp sp inp s) = hasEverStarted s"
  "audioDuration (spawnCallback vp sp inp s) = audioDuration s"
  by (auto simp: spawnCallback_def addCharacter_fields split: sum.splits)

lemma spawnCallback_song_timers:
  "tm \<in> set (timers (spawnCallback vp sp inp s)) \<Longrightarrow> job tm = SongJob \<Longrightarrow> tm \<in> set (timers s)"
  using addCharacter_fields(9) [of vp sp "in_now inp" "in_positions inp" "in_interval inp" "in_row inp" s]
  by (auto simp: spawnCallback_def split: sum.splits if_splits)

lemma removeCallback_fields [simp]:
  "characters (removeCallback i s) = removeFirst i (characters s)"
  "spawnTimer (removeCallback i s) = spawnTimer s"
  "gameStarted (removeCallback i s) = gameStarted s"
  "songs (removeCallback i s) = songs s"
  "songTimer (removeCallback i s) = songTimer s"
  "elapsedTime (removeCallback i s) = elapsedTime s"
  "startTime_ms (removeCallback i s) = startTime_ms s"
  "hasEverStarted (removeCallback i s) = hasEverStarted s"
  "audioDuration (removeCallback i s) = audioDuration s"
  "timers (removeCallback i s) = timers s"
  "nextTimer (removeCallback i s) = nextTimer s"
  "nextOid (removeCallback i s) = nextOid s"
  by (simp_all add: removeCallback_def)

lemma upt_head: "[a..<Suc (a + n)] = a # [Suc a..<Suc (a + n)]"
  by (simp add: upt_conv_Cons)

lemma removalTimers_tids: "map tid (removalTimers first index cs) = [first..<first + length cs]"
  by (induction cs arbitrary: first index) (simp_all add: upt_head del: upt_Suc)



lemma scheduleRemovals_fields:
  "characters (scheduleRemovals index cs s) = characters s"
  "spawnTimer (scheduleRemovals index cs s) = spawnTimer s"
  "gameStarted (scheduleRemovals index cs s) = gameStarted s"
  "songs (scheduleRemovals index cs s) = songs s"
  "songTimer (scheduleRemovals index cs s) = songTimer s"
  "elapsedTime (scheduleRemovals index cs s) = elapsedTime s"
  "startTime_ms (scheduleRemovals index cs s) = startTime_ms s"
  "hasEverStarted (scheduleRemovals index cs s) = hasEverStarted s"
  "audioDuration (scheduleRemovals index cs s) = audioDuration s"
  "timers (scheduleRemovals index cs s) = timers s @ removalTimers (nextTimer s) index cs"
  "nextTimer (scheduleRemovals index cs s) = nextTimer s + length cs"
  "nextOid (scheduleRemovals index cs s) = nextOid s"
  by (induction index cs s rule: scheduleRemovals.induct)
     (simp_all add: setTimer_def)

lemma removeCharactersOneByOne_fields [simp]:
  "characters (removeCharactersOneByOne s) = characters s"
  "spawnTimer (removeCharactersOneByOne s) = None"
  "gameStarted (removeCharactersOneByOne s) = gameStarted s"
  "songs (removeCharactersOneByOne s) = songs s"
  "songTimer (removeCharactersOneByOne s) = songTimer s"
  "elapsedTime (removeCharactersOneByOne s) = elapsedTime s"
  "startTime_ms (removeCharactersOneByOne s) = startTime_ms s"
  "hasEverStarted (removeCharactersOneByOne s) = hasEverStarted s"
  "audioDuration (removeCharactersOneByOne s) = audioDuration s"
  "timers (removeCharactersOneByOne s) =
     filter (\<lambda>t. Some (tid t) \<noteq> spawnTimer s) (timers s)
       @ removalTimers (nextTimer s) 0 (filter (\<lambda>c. \<not> isCenterCharacter c) (characters s))"
  "nextTimer (removeCharactersOneByOne s) =
     nextTimer s + length (filter (\<lambda>c. \<not> isCenterCharacter c) (characters s))"
  "nextOid (removeCharactersOneByOne s) = nextOid s"
  by (auto simp: removeCharactersOneByOne_def Let_def scheduleRemovals_fields
      split: option.splits intro: filter_cong)

lemma audioEnded_fields [simp]:
  "characters (audioEnded s) = characters s"
  "spawnTimer (audioEnded s) = None"
  "gameStarted (audioEnded s) = False"
  "songs (audioEnded s) = songs s"
  "songTimer (audioEnded s) = None"
  "elapsedTime (audioEnded s) = elapsedTime s"
  "startTime_ms (audioEnded s) = startTime_ms s"
  "hasEverStarted (audioEnded s) = hasEverStarted s"
  "audioDuration (audioEnded s) = audioDuration s"
  "timers (audioEnded s) =
     filter (\<lambda>t. Some (tid t) \<noteq> songTimer s \<and> Some (tid t) \<noteq> spawnTimer s) (timers s)
       @ removalTimers (nextTimer s) 0 (filter (\<lambda>c. \<not> isCenterCharacter c) (characters s))"
  "nextTimer (audioEnded s) =
     nextTimer s + length (filter (\<lambda>c. \<not> isCenterCharacter c) (characters s))"
  "nextOid (audioEnded s) = nextOid s"
  by (auto simp: audioEnded_def Let_def split: option.splits intro: filter_cong)

lemma showCenterCharacter_fields [simp]:
  "spawnTimer (showCenterCharacter sp now r1 x0 y0 s) = spawnTimer s"
  "gameStarted (showCenterCharacter sp now r1 x0 y0 s) = gameStarted s"
  "songs (showCenterCharacter sp now r1 x0 y0 s) = songs s"
  "songTimer (showCenterCharacter sp now r1 x0 y0 s) = songTimer s"
  "elapsedTime (showCenterCharacter sp now r1 x0 y0 s) = elapsedTime s"
  "startTime_ms (showCenterCharacter sp now r1 x0 y0 s) = startTime_ms s"
  "hasEverStarted (showCenterCharacter sp now r1 x0 y0 s) = hasEverStarted s"
  "audioDuration (showCenterCharacter sp now r1 x0 y0 s) = audioDuration s"
  "timers (showCenterCharacter sp now r1 x0 y0 s) = timers s"
  "nextTimer (showCenterCharacter sp now r1 x0 y0 s) = nextTimer s"
  by (simp_all add: showCenterCharacter_def split: sum.splits)

lemma removalTimers_no_song: "tm \<in> set (removalTimers first index cs) \<Longrightarrow> job tm \<noteq> SongJob"
  by (induction first index cs rule: removalTimers.induct) auto

lemma click_inv:
  assumes "timelineInv t s" "t \<le> now"
  shows "timelineInv now (handleMessageBoxClick now r s)"
proof (cases "gameStarted s")
  case False
  then have "\<forall>tm \<in> set (timers s). job tm \<noteq> SongJob"
    using assms(1) by (auto simp: timelineInv_def list_all_iff)
  with assms False show ?thesis
    by (auto simp: timelineInv_def list_all_iff start_fields)
next
  case True
  with assms show ?thesis
    by (auto simp: timelineInv_def list_all_iff pause_fields)
qed

lemma seek_inv:
  assumes "timelineInv t s" "t \<le> now" "0 \<le> target"
  shows "timelineInv now (seekToSong now r target s)"
proof (cases "backgroundAudio s")
  case None
  with assms show ?thesis
    by (auto simp: seekToSong_def timelineInv_def split: option.splits)
next
  case (Some a)
  define s1 where "s1 = s\<lparr>backgroundAudio := Some (a\<lparr>currentTime := target\<rparr>)\<rparr>"
  have i1: "timelineInv t s1"
    using assms(1) by (auto simp: timelineInv_def s1_def split: option.splits)
  show ?thesis
  proof (cases "gameStarted s")
    case False
    then have g: "\<not> gameStarted s1" by (simp add: s1_def)
    have i2: "timelineInv now (handleMessageBoxClick now r s1)"
      by (rule click_inv [OF i1 assms(2)])
    with Some False g assms(3) show ?thesis
      by (auto simp: seekToSong_def Let_def s1_def [symmetric] timelineInv_def list_all_iff
          start_fields)
  next
    case True
    with Some assms show ?thesis
      by (auto simp: seekToSong_def Let_def timelineInv_def list_all_iff split: option.splits)
  qed
qed

lemma timelineInv_later: "timelineInv t s \<Longrightarrow> t \<le> t' \<Longrightarrow> timelineInv t' s"
  by (auto simp: timelineInv_def split: option.splits)

lemma tick_inv:
  assumes "timelineInv t s" "t \<le> now" "SongJob \<in> job ` set (timers s)"
  shows "timelineInv now (songTick now s)" and "elapsedTime s \<le> elapsedTime (songTick now s)"
proof -
  from assms(1,3) have g: "gameStarted s" by (auto simp: timelineInv_def list_all_iff)
  with assms(1) obtain st where st: "startTime_ms s = Some st" "elapsedTime s * 1000 \<le> t - st"
    by (auto simp: timelineInv_def split: option.splits)
  have e: "0 \<le> elapsedTime s" using assms(1) by (simp add: timelineInv_def)
  have le: "elapsedTime s * 1000 \<le> now - st" using st(2) assms(2) by simp
  then have m: "elapsedTime s \<le> (now - st) div 1000" by linarith
  have u: "((now - st) div 1000) * 1000 \<le> now - st" by simp
  show "elapsedTime s \<le> elapsedTime (songTick now s)" using m st by simp
  show "timelineInv now (songTick now s)"
    using assms(1) g st m e u by (auto simp: timelineInv_def list_all_iff)
qed

lemma spawn_inv:
  assumes "timelineInv t s"
  shows "timelineInv t (spawnCallback vp sp inp (clearTimer i s))"
proof -
  have "tm \<in> set (timers (spawnCallback vp sp inp (clearTimer i s))) \<Longrightarrow> job tm = SongJob
          \<Longrightarrow> tm \<in> set (timers s)" for tm
    using spawnCallback_song_timers [of tm vp sp inp "clearTimer i s"] by auto
  with assms show ?thesis
    by (auto simp: timelineInv_def list_all_iff split: option.splits)
qed

lemma step_inv:
  assumes "timelineInv t s"
    and "case eventTime e of None \<Rightarrow> True | Some t' \<Rightarrow> t \<le> t'"
  shows "timelineInv (case eventTime e of None \<Rightarrow> t | Some t' \<Rightarrow> t') (step vp sp e s)"
proof (cases e)
  case (Click now r)
  with assms show ?thesis by (simp add: click_inv)
next
  case (SongItemClick now r k)
  show ?thesis
  proof (cases "at_index (songs s) (int k)")
    case None
    with assms SongItemClick show ?thesis by (simp add: timelineInv_later)
  next
    case (Some sg)
    then have "sg \<in> set (songs s)" by (auto simp: at_index_def split: if_splits)
    then have "0 \<le> startTime sg" using assms(1) by (auto simp: timelineInv_def list_all_iff)
    with assms SongItemClick Some show ?thesis by (simp add: seek_inv)
  qed
next
  case (SongTick now)
  show ?thesis
  proof (cases "SongJob \<in> job ` set (timers s)")
    case True
    have "t \<le> now" using assms(2) SongTick by simp
    from tick_inv(1) [OF assms(1) this True] SongTick True show ?thesis
      by (simp del: songTick_fields)
  next
    case False
    with SongTick assms show ?thesis by (simp add: timelineInv_later)
  qed
next
  case (SpawnFire i inp)
  have "timelineInv t (step vp sp e s)"
    using assms(1) SpawnFire by (auto simp: spawn_inv split: option.splits)
  with assms(2) SpawnFire show ?thesis by (simp add: timelineInv_later)
next
  case (RemoveFire i)
  with assms(1) show ?thesis
    by (auto simp: timelineInv_def list_all_iff split: option.splits job.splits)
next
  case AudioEnded
  with assms(1) show ?thesis
    by (auto simp: timelineInv_def list_all_iff dest: removalTimers_no_song split: option.splits)
next
  case (LoadedMetadata d)
  with assms(1) show ?thesis by (auto simp: timelineInv_def split: option.splits)
next
  case (CenterShown now r1 x0 y0)
  have "timelineInv t (step vp sp e s)"
    using assms(1) CenterShown by (auto simp: timelineInv_def list_all_iff split: option.splits)
  with assms(2) CenterShown show ?thesis by (simp add: timelineInv_later)
qed

lemma run_inv:
  "timelineInv t s \<Longrightarrow> monotoneClock t evs \<Longrightarrow>
     timelineInv (clockAfter t evs) (run vp sp evs s)"
proof (induction evs arbitrary: t s)
  case Nil
  then show ?case by simp
next
  case (Cons e evs)
  have c: "case eventTime e of None \<Rightarrow> True | Some t' \<Rightarrow> t \<le> t'"
    using Cons.prems(2) by (auto split: option.splits)
  have m: "monotoneClock (case eventTime e of None \<Rightarrow> t | Some t' \<Rightarrow> t') evs"
    using Cons.prems(2) by (auto split: option.splits)
  from Cons.IH [OF step_inv [OF Cons.prems(1) c] m]
  show ?case by simp
qed

lemma monotoneClock_snoc:
  "monotoneClock t (evs @ [e]) \<longleftrightarrow>
     monotoneClock t evs \<and> (case eventTime e of None \<Rightarrow> True | Some t' \<Rightarrow> clockAfter t evs \<le> t')"
  by (induction evs arbitrary: t) (auto split: option.splits)

lemma initial_inv:
  "\<forall>sg \<in> set sgs. 0 \<le> startTime sg \<Longrightarrow> timelineInv t (initialState sgs)"
  by (simp add: timelineInv_def initialState_def list_all_iff)

lemma step_monotone:
  assumes "timelineInv t s" "gameStarted s" "\<not> isSeek e"
    and "case eventTime e of None \<Rightarrow> True | Some t' \<Rightarrow> t \<le> t'"
  shows "elapsedTime s \<le> elapsedTime (step vp sp e s)"
proof (cases e)
  case (Click now r)
  with assms show ?thesis by (simp add: pause_fields)
next
  case (SongItemClick now r k)
  with assms show ?thesis by (simp add: isSeek_def)
next
  case (SongTick now)
  show ?thesis
  proof (cases "SongJob \<in> job ` set (timers s)")
    case True
    have "t \<le> now" using assms(4) SongTick by simp
    from tick_inv(2) [OF assms(1) this True] SongTick True show ?thesis
      by (simp del: songTick_fields)
  next
    case False
    with SongTick show ?thesis by simp
  qed
next
  case (SpawnFire i inp)
  then show ?thesis by (auto split: option.splits)
next
  case (RemoveFire i)
  then show ?thesis by (auto split: option.splits job.splits)
qed simp_all

text \<open>
  Claim C8, as amended. Take any sequence of events from the initial state whose clock
  values never go back, with songs that start at 0 or later. Then the elapsed time of
  the state reached is at least 0, and while the session is playing no event other than
  an explicit seek makes the elapsed time smaller. The code has no upper bound on the
  elapsed time: nothing compares it with \<open>audioDuration\<close>.
\<close>

theorem elapsedTime_nonnegative_and_monotone:
  assumes "\<forall>sg \<in> set sgs. 0 \<le> startTime sg" and "monotoneClock t0 (evs @ [e])"
  shows "0 \<le> elapsedTime (run vp sp evs (initialState sgs)) \<and>
         (gameStarted (run vp sp evs (initialState sgs)) \<and> \<not> isSeek e \<longrightarrow>
            elapsedTime (run vp sp evs (initialState sgs))
              \<le> elapsedTime (step vp sp e (run vp sp evs (initialState sgs))))"
proof -
  from assms(2) have m: "monotoneClock t0 evs"
    and c: "case eventTime e of None \<Rightarrow> True | Some t' \<Rightarrow> clockAfter t0 evs \<le> t'"
    by (simp_all add: monotoneClock_snoc)
  have i: "timelineInv (clockAfter t0 evs) (run vp sp evs (initialState sgs))"
    by (rule run_inv [OF initial_inv [OF assms(1)] m])
  then have "0 \<le> elapsedTime (run vp sp evs (initialState sgs))"
    by (simp add: timelineInv_def)
  moreover have "elapsedTime (run vp sp evs (initialState sgs))
              \<le> elapsedTime (step vp sp e (run vp sp evs (initialState sgs)))"
    if "gameStarted (run vp sp evs (initialState sgs))" "\<not> isSeek e"
    by (rule step_monotone [OF i that c])
  ultimately show ?thesis by blast
qed

lemma playingState_fields:
  "gameStarted playingState" "elapsedTime playingState = 0" "startTime_ms playingState = Some 0"
  "hasEverStarted playingState" "spawnTimer playingState = Some 2" "nextTimer playingState = 3"
  "characters playingState = []"
  "timers playingState = [\<lparr>tid = 1, delay = 100, job = SongJob\<rparr>,
                          \<lparr>tid = 2, delay = 25000, job = SpawnJob\<rparr>]"
proof -
  have n: "\<not> gameStarted (initialState exampleSongs)" by (simp add: initialState_def)
  have p: "playingState = handleMessageBoxClick 0 (1/2) (initialState exampleSongs)"
    by (simp add: playingState_def)
  show "gameStarted playingState" "elapsedTime playingState = 0"
    "startTime_ms playingState = Some 0" "hasEverStarted playingState"
    unfolding p by (simp_all add: start_fields [OF n])
  show "spawnTimer playingState = Some 2" "nextTimer playingState = 3"
    unfolding p by (simp_all add: start_fields [OF n]) (simp_all add: initialState_def)
  show "timers playingState = [\<lparr>tid = 1, delay = 100, job = SongJob\<rparr>,
                          \<lparr>tid = 2, delay = 25000, job = SpawnJob\<rparr>]"
    unfolding p by (simp add: start_fields [OF n])
      (simp add: initialState_def CHARACTER_SPAWN_INTERVAL_def)
  have "map oid (characters playingState) = []"
    unfolding p by (simp add: start_fields [OF n]) (simp add: initialState_def)
  then show "characters playingState = []" by simp
qed

lemma pausedState_fields:
  "\<not> gameStarted pausedState" "elapsedTime pausedState = 25" "hasEverStarted pausedState"
proof -
  define s1 where "s1 = songTick 25000 playingState"
  have g: "gameStarted s1" by (simp add: s1_def playingState_fields)
  have e: "elapsedTime s1 = 25" by (simp add: s1_def playingState_fields)
  have h: "hasEverStarted s1" by (simp add: s1_def playingState_fields)
  have p: "pausedState = handleMessageBoxClick 25500 (1/2) s1"
    by (simp add: pausedState_def s1_def playingState_fields)
  show "\<not> gameStarted pausedState" "elapsedTime pausedState = 25" "hasEverStarted pausedState"
    unfolding p by (simp_all add: pause_fields [OF g] e h)
qed

text \<open>
  Claim C1 says that resuming after a pause keeps the elapsed time held at the pause.
  The code does not do that. In \<open>pausedState\<close> the session has been started before
  (\<open>hasEverStarted\<close>), is paused, and holds the elapsed time 25. The play/pause
  toggle then starts playing and sets the elapsed time to 0: the assignment
  \<open>elapsedTime = 0\<close> of line 903 is outside the \<open>if (!hasEverStarted)\<close> block.
\<close>

theorem resume_resets_elapsedTime:
  "\<not> gameStarted pausedState \<and> hasEverStarted pausedState \<and> elapsedTime pausedState = 25 \<and>
   gameStarted (handleMessageBoxClick 30000 (1/2) pausedState) \<and>
   elapsedTime (handleMessageBoxClick 30000 (1/2) pausedState) = 0"
  using pausedState_fields by (simp add: start_fields)

text \<open>
  Claim C8 as stated fails in its upper bound. On \<open>overrunTrace\<close> the audio
  reports a duration of 40.9 s, so \<open>audioDuration\<close> is 40; play is pressed at clock
  value 0 and the song timer fires at clock value 41000 while the session is still
  playing: the elapsed time is 41.
\<close>

theorem elapsedTime_exceeds_duration_counterexample:
  "monotoneClock 0 overrunTrace \<and>
   gameStarted (run exampleViewport twoFrameSprites overrunTrace (initialState exampleSongs)) \<and>
   audioDuration (run exampleViewport twoFrameSprites overrunTrace (initialState exampleSongs)) = 40 \<and>
   elapsedTime (run exampleViewport twoFrameSprites overrunTrace (initialState exampleSongs)) = 41"
proof -
  define s0 where "s0 = (initialState exampleSongs)\<lparr>audioDuration := 40\<rparr>"
  define s1 where "s1 = handleMessageBoxClick 0 (1/2) s0"
  have n: "\<not> gameStarted s0" by (simp add: s0_def initialState_def)
  have f: "\<lfloor>409 / 10 :: real\<rfloor> = 40" by linarith
  have r: "run exampleViewport twoFrameSprites overrunTrace (initialState exampleSongs)
             = songTick 41000 s1"
    by (simp add: overrunTrace_def f s0_def [symmetric] s1_def [symmetric])
       (simp add: s1_def start_fields [OF n])
  have "audioDuration s0 = 40" by (simp add: s0_def)
  then show ?thesis
    unfolding r by (simp add: s1_def start_fields [OF n] overrunTrace_def)
qed

theorem elapsedTime_nonnegative_and_monotone_witness:
  "monotoneClock 0 ([Click 0 (1/2)] @ [SongTick 5000]) \<and>
   gameStarted (run exampleViewport twoFrameSprites [Click 0 (1/2)] (initialState exampleSongs)) \<and>
   \<not> isSeek (SongTick 5000) \<and>
   0 \<le> elapsedTime (run exampleViewport twoFrameSprites [Click 0 (1/2)] (initialState exampleSongs)) \<and>
   elapsedTime (run exampleViewport twoFrameSprites [Click 0 (1/2)] (initialState exampleSongs))
     \<le> elapsedTime (step exampleViewport twoFrameSprites (SongTick 5000)
          (run exampleViewport twoFrameSprites [Click 0 (1/2)] (initialState exampleSongs)))"
proof -
  have h1: "\<forall>sg \<in> set exampleSongs. 0 \<le> startTime sg"
    by (simp add: exampleSongs_def introSong_def verseSong_def)
  have h2: "monotoneClock 0 ([Click 0 (1/2)] @ [SongTick 5000])" by simp
  have g: "gameStarted (run exampleViewport twoFrameSprites [Click 0 (1/2)] (initialState exampleSongs))"
    using playingState_fields(1) by (simp add: playingState_def)
  have k: "\<not> isSeek (SongTick 5000)" by (simp add: isSeek_def)
  from elapsedTime_nonnegative_and_monotone [OF h1 h2, of exampleViewport twoFrameSprites] g k h2
  show ?thesis by blast
qed

lemma crowded_candidate_collides:
  assumes "0 \<le> fst r" "fst r < 1" "0 \<le> snd r" "snd r < 1"
  shows "hasCollision [\<lparr>rx = 94, ry = 124, rwidth = 112, rheight = 112\<rparr>]
           (boxAt (candidate crowdedViewport r))"
proof -
  define x where "x = fl (fst r * 188)"
  define t where "t = fl (snd r * 128)"
  define y where "y = fl (60 + t)"
  have b: "boxAt (candidate crowdedViewport r)
             = \<lparr>rx = x, ry = y, rwidth = 112, rheight = 112\<rparr>"
    by (simp add: candidate_def crowdedViewport_def charWidth_def charHeight_def
        SPRITE_WIDTH_def SPRITE_HEIGHT_def SCALE_def Let_def boxAt_def x_def y_def t_def)
  have x: "0 \<le> x" "x \<le> 188"
    unfolding x_def using assms by (auto intro!: fl_ge_double fl_le_double)
  have t: "0 \<le> t" "t \<le> 128"
    unfolding t_def using assms by (auto intro!: fl_ge_double fl_le_double)
  have y: "60 \<le> y" "y \<le> 188"
    unfolding y_def using t by (auto intro!: fl_ge_double fl_le_double)
  have "94 \<le> fl (x + 112)" using x by (intro fl_ge_double) simp_all
  moreover have "124 \<le> fl (y + 112)" using y by (intro fl_ge_double) simp_all
  ultimately show ?thesis using x y by (simp add: b checkCollision_def)
qed

lemma crowded_full:
  assumes "\<forall>i. 0 \<le> fst (rnd i) \<and> fst (rnd i) < 1 \<and> 0 \<le> snd (rnd i) \<and> snd (rnd i) < 1"
  shows "findRandomPosition crowdedViewport [\<lparr>rx = 94, ry = 124, rwidth = 112, rheight = 112\<rparr>] rnd = None"
  unfolding findRandomPosition_def findLoop_None_iff
  using assms crowded_candidate_collides by blast

lemma spawnCallback_full:
  assumes "findRandomPosition vp (map getBounds (characters s)) (in_positions inp) = None"
    and "gameStarted s"
  shows "spawnTimer (spawnCallback vp sp inp s) = Some (nextTimer s)"
    and "gameStarted (spawnCallback vp sp inp s)"
    and "timers (spawnCallback vp sp inp s)
           = filter (\<lambda>t. Some (tid t) \<noteq> spawnTimer s) (timers s)
               @ [\<lparr>tid = nextTimer s,
                    delay = fl (CHARACTER_SPAWN_INTERVAL
                                + fl (fl (fl (in_offset inp * 6) - 3) * 1000)),
                    job = SpawnJob\<rparr>]"
  using assms
  by (auto simp: spawnCallback_def addCharacter_def split: option.splits intro: filter_cong)

lemma crowdedState_fields:
  "gameStarted crowdedState" "spawnTimer crowdedState = Some 2" "nextTimer crowdedState = 3"
  "map getBounds (characters crowdedState) = [\<lparr>rx = 94, ry = 124, rwidth = 112, rheight = 112\<rparr>]"
  "timers crowdedState = [\<lparr>tid = 1, delay = 100, job = SongJob\<rparr>,
                          \<lparr>tid = 2, delay = 25000, job = SpawnJob\<rparr>]"
proof -
  define s1 where "s1 = showCenterCharacter twoFrameSprites 0 (1/2) 94 124 (initialState exampleSongs)"
  have n: "\<not> gameStarted s1" by (simp add: s1_def initialState_def)
  have c: "map getBounds (characters s1) = [\<lparr>rx = 94, ry = 124, rwidth = 112, rheight = 112\<rparr>]"
    by (simp add: s1_def showCenterCharacter_def newCharacter_def initialState_def getBounds_def
        SPRITE_WIDTH_def SPRITE_HEIGHT_def SCALE_def Let_def)
  have t: "timers s1 = []" "nextTimer s1 = 1"
    by (simp_all add: s1_def initialState_def)
  have p: "crowdedState = handleMessageBoxClick 1000 (1/2) s1"
    by (simp add: crowdedState_def s1_def twoFrameSprites_def)
  show "gameStarted crowdedState" "spawnTimer crowdedState = Some 2" "nextTimer crowdedState = 3"
    "map getBounds (characters crowdedState) = [\<lparr>rx = 94, ry = 124, rwidth = 112, rheight = 112\<rparr>]"
    "timers crowdedState = [\<lparr>tid = 1, delay = 100, job = SongJob\<rparr>,
                          \<lparr>tid = 2, delay = 25000, job = SpawnJob\<rparr>]"
    unfolding p by (simp_all add: start_fields [OF n] c t CHARACTER_SPAWN_INTERVAL_def)
qed

text \<open>
  Claim C2 says that after a Full result no further spawn timer is created in the same
  playing session. The code does not do that. In \<open>crowdedState\<close> the session is
  playing, the spawn timer with handle 2 is pending, and the placement engine reports
  Full for every sequence of random draws (\<open>crowded_full\<close>). When the timer fires,
  \<open>addCharacter\<close> clears \<open>spawnTimer\<close>, but the timer callback then finds
  \<open>gameStarted\<close> still true and calls \<open>scheduleNextSpawn\<close>: afterwards
  \<open>spawnTimer\<close> holds the new handle 3 and a spawn timer with that handle is pending.
\<close>

theorem full_screen_reschedules_spawn:
  "gameStarted crowdedState \<and> spawnTimer crowdedState = Some 2 \<and>
   pendingTimer 2 crowdedState = Some \<lparr>tid = 2, delay = 25000, job = SpawnJob\<rparr> \<and>
   findRandomPosition crowdedViewport (map getBounds (characters crowdedState))
     (in_positions crowdedInputs) = None \<and>
   gameStarted (step crowdedViewport twoFrameSprites (SpawnFire 2 crowdedInputs) crowdedState) \<and>
   spawnTimer (step crowdedViewport twoFrameSprites (SpawnFire 2 crowdedInputs) crowdedState) = Some 3 \<and>
   pendingTimer 3 (step crowdedViewport twoFrameSprites (SpawnFire 2 crowdedInputs) crowdedState)
     = Some \<lparr>tid = 3, delay = 25000, job = SpawnJob\<rparr>"
proof -
  have p: "pendingTimer 2 crowdedState = Some \<lparr>tid = 2, delay = 25000, job = SpawnJob\<rparr>"
    by (simp add: pendingTimer_def crowdedState_fields)
  have f: "findRandomPosition crowdedViewport (map getBounds (characters crowdedState))
     (in_positions crowdedInputs) = None"
    unfolding crowdedState_fields by (rule crowded_full) (simp add: crowdedInputs_def)
  define s1 where "s1 = clearTimer 2 crowdedState"
  have s1: "gameStarted s1" "nextTimer s1 = 3" "spawnTimer s1 = Some 2"
    "timers s1 = [\<lparr>tid = 1, delay = 100, job = SongJob\<rparr>]"
    "characters s1 = characters crowdedState"
    by (simp_all add: s1_def crowdedState_fields)
  have f1: "findRandomPosition crowdedViewport (map getBounds (characters s1))
     (in_positions crowdedInputs) = None"
    using f by (simp add: s1(5))
  have st: "step crowdedViewport twoFrameSprites (SpawnFire 2 crowdedInputs) crowdedState
          = spawnCallback crowdedViewport twoFrameSprites crowdedInputs s1"
    by (simp add: p s1_def)
  have o: "in_offset crowdedInputs = 1/2" by (simp add: crowdedInputs_def)
  show ?thesis
    unfolding st
    using p f spawnCallback_full [OF f1 s1(1), of twoFrameSprites]
    by (simp add: crowdedState_fields s1 pendingTimer_def CHARACTER_SPAWN_INTERVAL_def o)
qed

lemma removeFirst_filter:
  "distinct (map oid xs) \<Longrightarrow> removeFirst i xs = filter (\<lambda>c. oid c \<noteq> i) xs"
proof (induction xs)
  case Nil
  then show ?case by simp
next
  case (Cons c cs)
  show ?case
  proof (cases "oid c = i")
    case True
    moreover have "oid c \<notin> oid ` set cs" using Cons.prems by simp
    ultimately have "\<forall>x \<in> set cs. oid x \<noteq> i" by blast
    then have "filter (\<lambda>c. oid c \<noteq> i) cs = cs" by (simp add: filter_id_conv)
    with True show ?thesis by simp
  next
    case False
    with Cons show ?thesis by simp
  qed
qed







text \<open>
  The hypotheses of the teardown theorem hold in every state that the event loop
  reaches from the initial state.
\<close>

lemma selectRandomRow_oid: "selectRandomRow sp r c = Inr c' \<Longrightarrow> oid c' = oid c"
  by (auto simp: selectRandomRow_def split: option.splits if_splits)

lemma newCharacter_oid:
  "newCharacter sp now r1 r2 ident x0 y0 isCenter = Inr c \<Longrightarrow> oid c = ident"
  by (auto simp: newCharacter_def Let_def dest: selectRandomRow_oid split: if_splits)

lemma click_wellFormed: "wellFormed s \<Longrightarrow> wellFormed (handleMessageBoxClick now r s)"
proof (cases "gameStarted s")
  case False
  assume w: "wellFormed s"
  have "list_all (\<lambda>c. oid c < nextOid s) (characters (handleMessageBoxClick now r s))
          = list_all (\<lambda>x. x < nextOid s) (map oid (characters (handleMessageBoxClick now r s)))"
    by (simp add: list_all_iff)
  also have "\<dots> = list_all (\<lambda>c. oid c < nextOid s) (characters s)"
    by (simp add: start_fields [OF False] list_all_iff)
  finally show ?thesis
    using w False by (auto simp: wellFormed_def start_fields list_all_iff)
next
  case True
  assume "wellFormed s"
  with True show ?thesis by (auto simp: wellFormed_def pause_fields list_all_iff)
qed

lemma seek_wellFormed: "wellFormed s \<Longrightarrow> wellFormed (seekToSong now r target s)"
proof (cases "backgroundAudio s")
  case None
  assume "wellFormed s"
  with None show ?thesis by (simp add: seekToSong_def)
next
  case (Some a)
  assume w: "wellFormed s"
  define s1 where "s1 = s\<lparr>backgroundAudio := Some (a\<lparr>currentTime := target\<rparr>)\<rparr>"
  have w1: "wellFormed s1" using w by (simp add: wellFormed_def s1_def)
  have "wellFormed (handleMessageBoxClick now r s1)" by (rule click_wellFormed [OF w1])
  then show ?thesis
    using Some w1 by (auto simp: seekToSong_def Let_def s1_def [symmetric] wellFormed_def)
qed

lemma spawn_wellFormed:
  assumes "wellFormed s"
  shows "wellFormed (spawnCallback vp sp inp s)"
proof (cases "addCharacter vp sp (in_now inp) (in_positions inp) (in_interval inp) (in_row inp) s")
  case (Inl e)
  with assms show ?thesis by (simp add: spawnCallback_def)
next
  case (Inr s1)
  have "wellFormed s1"
    using Inr assms
    apply (auto simp: addCharacter_def wellFormed_def list_all_iff dest!: newCharacter_oid
        split: option.splits sum.splits)
     apply (metis less_irrefl_nat)
    apply (simp add: less_SucI)
    done
  then have "wellFormed (scheduleNextSpawn (in_offset inp) s1)"
    by (auto simp: wellFormed_def list_all_iff)
  with \<open>wellFormed s1\<close> Inr show ?thesis by (simp add: spawnCallback_def)
qed

lemma clearTimer_wellFormed: "wellFormed s \<Longrightarrow> wellFormed (clearTimer i s)"
  by (auto simp: wellFormed_def list_all_iff)

lemma remove_wellFormed:
  assumes "wellFormed s"
  shows "wellFormed (removeCallback ident s)"
proof -
  have d: "distinct (map oid (characters s))" using assms by (simp add: wellFormed_def)
  show ?thesis
    using assms by (auto simp: wellFormed_def list_all_iff removeFirst_filter [OF d] distinct_map_filter)
qed

lemma removalTimers_bound:
  "t \<in> set (removalTimers first index cs) \<Longrightarrow> tid t < first + length cs"
proof -
  assume "t \<in> set (removalTimers first index cs)"
  then have "tid t \<in> set (map tid (removalTimers first index cs))" by (simp only: set_map) (rule imageI)
  then have "tid t \<in> set [first..<first + length cs]" by (simp only: removalTimers_tids)
  then show ?thesis by (simp only: set_upt) auto
qed

lemma ended_wellFormed: "wellFormed s \<Longrightarrow> wellFormed (audioEnded s)"
  by (auto simp: wellFormed_def list_all_iff dest: removalTimers_bound)

lemma center_wellFormed: "wellFormed s \<Longrightarrow> wellFormed (showCenterCharacter sp now r1 x0 y0 s)"
  by (auto simp: showCenterCharacter_def wellFormed_def list_all_iff dest!: newCharacter_oid
      split: sum.splits)

lemma step_wellFormed: "wellFormed s \<Longrightarrow> wellFormed (step vp sp e s)"
proof (cases e)
  case (SongTick now)
  assume "wellFormed s"
  then show ?thesis using SongTick by (auto simp: wellFormed_def)
next
  case (LoadedMetadata d)
  assume "wellFormed s"
  then show ?thesis using LoadedMetadata by (auto simp: wellFormed_def)
qed (auto simp: click_wellFormed seek_wellFormed spawn_wellFormed clearTimer_wellFormed
      remove_wellFormed ended_wellFormed center_wellFormed split: option.splits job.splits)

lemma reachable_wellFormed: "wellFormed (run vp sp evs (initialState sgs))"
proof -
  have "wellFormed s \<Longrightarrow> wellFormed (run vp sp evs s)" for s
    by (induction evs arbitrary: s) (simp_all add: step_wellFormed)
  moreover have "wellFormed (initialState sgs)" by (simp add: wellFormed_def initialState_def)
  ultimately show ?thesis by blast
qed

end
